theory Spec2Isabelle
  imports Main
begin

section \<open>saneex: the exception engine (saneex.h, saneex.c)\<close>

text \<open>
  The engine keeps its state in file-level variables of saneex.c. They are collected in
  one record that every function takes and returns. Integers of C type \<open>int\<close> are
  modelled as \<open>int\<close>: the engine's own assertions keep \<open>nextContext\<close> within
  \<open>0..100\<close> and the trace within 20 entries, so no overflow is reachable there.
  Pointers are addresses (\<open>nat\<close>), with \<open>NULL = 0\<close>.
\<close>

type_synonym addr = nat

definition NULL :: addr where
  "NULL = 0"

text \<open>\<open>struct SxTraceEntry\<close> of saneex.h. The two \<open>char[SX_MAX_TRACE_STRING]\<close>
  members are modelled by their contents up to the terminating zero (\<open>file\<close> is a
  reserved word of Isabelle, hence the prime).\<close>

record SxTraceEntry =
  code :: int
  uncatchable :: bool
  file' :: string
  line :: int
  message :: string
  extra :: addr

definition SX_MAX_TRACE_STRING :: nat where
  "SX_MAX_TRACE_STRING = 128"

definition EXIT_UNCAUGHT :: int where "EXIT_UNCAUGHT = 200"
definition EXIT_MAX_TRIES :: int where "EXIT_MAX_TRIES = 254"
definition EXIT_NO_TRY_ON_LEAVE :: int where "EXIT_NO_TRY_ON_LEAVE = 253"
definition EXIT_OUTSIDE_RETHROW :: int where "EXIT_OUTSIDE_RETHROW = 252"
definition EXIT_OUTSIDE_CAUGHT :: int where "EXIT_OUTSIDE_CAUGHT = 251"
definition EXIT_TOO_NESTED :: int where "EXIT_TOO_NESTED = 250"

definition MAX_TRY_CATCH :: int where "MAX_TRY_CATCH = 100"
definition MAX_TRACE :: nat where "MAX_TRACE = 20"
definition FINALLY_THRESHOLD :: int where "FINALLY_THRESHOLD = 50"

text \<open>What the engine writes to the diagnostic stream: the message of a failed
  \<open>sxAssert\<close> (the text of the asserted expression), the header line of an uncaught
  exception (its code and \<open>sxTag\<close>), and one item per trace entry printed by
  \<open>sxPrintEntryToStdErr\<close>.\<close>

datatype diag =
    AssertionError string
  | UncaughtHeader int string
  | PrintedEntry SxTraceEntry

text \<open>
  The variables of saneex.c:
  \<^item> \<open>nextContext\<close> and \<open>contexts[i].caught\<close> (the field \<open>caught\<close> maps the index
    \<open>i\<close> to \<open>contexts[i].caught\<close>; the \<open>jmp_buf\<close> of a frame is identified with its
    index);
  \<^item> \<open>_sxLastJumpCode\<close> (an Isabelle name cannot start with an underscore, so the
    leading underscore of the source's names is dropped throughout);
  \<^item> \<open>trace\<close> and \<open>nextTrace\<close>: the list \<open>trace\<close> holds \<open>trace[0..nextTrace-1]\<close>,
    so \<open>nextTrace\<close> is its length;
  \<^item> \<open>hasUncatchable\<close>, \<open>sxTag\<close>, and \<open>errno\<close> of the C library, which \<open>newex()\<close>
    reads;
  \<^item> \<open>stderr\<close>: what has been printed; \<open>freed\<close>: the pointers handed to \<open>free\<close>
    (and to \<open>sjFree\<close>, which is \<open>free\<close> unless overridden), in call order;
  \<^item> \<open>mem\<close>: the memory of objects, class descriptors and volatile locals, one
    pointer-sized cell per address (reads and writes are only made at the addresses of
    fields); \<open>cstr\<close>: the zero-terminated string that starts at an address;
  \<^item> \<open>user\<close>: the variables of the client program.
\<close>

record 'u sx_state =
  nextContext :: int
  caught :: "int \<Rightarrow> int"
  sxLastJumpCode :: int
  trace :: "SxTraceEntry list"
  hasUncatchable :: bool
  sxTag :: string
  errno :: int
  stderr :: "diag list"
  freed :: "addr list"
  mem :: "addr \<Rightarrow> nat"
  cstr :: "addr \<Rightarrow> string"
  user :: 'u

text \<open>
  How a call ends: it returns a value, it leaves through \<open>longjmp\<close> with a jump value
  (the target is always \<open>contexts[nextContext - 1].buf\<close>, the innermost open frame), or
  it ends the process through \<open>exit\<close> with a status.
\<close>

datatype ('a, 'u) result =
    Return 'a "'u sx_state"
  | LongJmp int "'u sx_state"
  | ProcExit int "'u sx_state"

text \<open>The default \<open>sxAssert(x, c)\<close>: when \<open>x\<close> fails, print and \<open>exit(c)\<close>. The
  function below is the failing branch.\<close>

definition sxAssertFailed :: "string \<Rightarrow> int \<Rightarrow> 'u sx_state \<Rightarrow> ('a, 'u) result" where
  "sxAssertFailed x c s = ProcExit c (s\<lparr>stderr := stderr s @ [AssertionError x]\<rparr>)"

text \<open>\<open>sxWalkTrace(sxPrintEntryToStdErr, NULL)\<close>: one printed item per entry.\<close>

definition sxPrintTrace :: "'u sx_state \<Rightarrow> 'u sx_state" where
  "sxPrintTrace s = s\<lparr>stderr := stderr s @ map PrintedEntry (trace s)\<rparr>"

text \<open>\<open>sxlcpyn(dest, src, n)\<close> copies at most \<open>n - 1\<close> characters and terminates the
  destination; \<open>sxlcpy\<close> calls it with \<open>n = SX_MAX_TRACE_STRING\<close>. The result is the
  string left in \<open>dest\<close> (for \<open>n = 0\<close> the destination is left alone).\<close>

definition sxlcpyn :: "string \<Rightarrow> string \<Rightarrow> nat \<Rightarrow> string" where
  "sxlcpyn dest src n = (if n > 0 then take (n - 1) src else dest)"

definition sxlcpy :: "string \<Rightarrow> string \<Rightarrow> string" where
  "sxlcpy dest src = sxlcpyn dest src SX_MAX_TRACE_STRING"

text \<open>\<open>sxAddTraceEntry\<close>. Its second condition, \<open>entry.file || entry.message ||
  entry.extra\<close>, tests the addresses of array members, which are never null, so only
  \<open>nextTrace < MAX_TRACE\<close> decides. The stored copy has both strings cut at
  \<open>SX_MAX_TRACE_STRING - 1\<close>.\<close>

definition sxAddTraceEntry :: "SxTraceEntry \<Rightarrow> 'u sx_state \<Rightarrow> 'u sx_state" where
  "sxAddTraceEntry entry s =
     (if length (trace s) < MAX_TRACE
      then s\<lparr>trace := trace s @
             [entry\<lparr>file' := take (SX_MAX_TRACE_STRING - 1) (file' entry),
                    message := take (SX_MAX_TRACE_STRING - 1) (message entry)\<rparr>]\<rparr>
      else s)"

text \<open>The value of an arithmetic expression of type \<open>int\<close> (32 bits, two's complement):
  a result outside the range, undefined in C, wraps around as the usual compilers make it.\<close>

definition cint :: "int \<Rightarrow> int" where
  "cint x = (x + 2147483648) mod 4294967296 - 2147483648"

text \<open>\<open>_throw\<close>: append the entry, accumulate the uncatchable flag, then either report
  and \<open>exit\<close> (no open frame) or \<open>longjmp\<close> to the innermost frame. The exit status is
  computed from the entry's code as it is, in \<open>int\<close> arithmetic; only the jump value is
  raised to 1.\<close>

definition throw' :: "SxTraceEntry \<Rightarrow> 'u sx_state \<Rightarrow> ('a, 'u) result" where
  "throw' entry s0 =
     (let s1 = sxAddTraceEntry entry s0;
          s = s1\<lparr>hasUncatchable := (hasUncatchable s1 \<or> uncatchable entry)\<rparr>;
          c = code entry
      in if nextContext s < 1
         then (let s2 = sxPrintTrace (s\<lparr>stderr := stderr s @ [UncaughtHeader c (sxTag s)]\<rparr>);
                   exitCode = cint (EXIT_UNCAUGHT + c)
               in ProcExit (if exitCode > 254 then 254 else exitCode) s2)
         else LongJmp (if c > 0 then c else 1) s)"

text \<open>\<open>_sxEnterTry\<close>: claim the next frame, reset its counter. The returned value stands
  for the address of the frame's \<open>jmp_buf\<close>.\<close>

definition sxEnterTry :: "'u sx_state \<Rightarrow> (int, 'u) result" where
  "sxEnterTry s =
     (if nextContext s < MAX_TRY_CATCH
      then Return (nextContext s)
             (s\<lparr>caught := (caught s)(nextContext s := 0), nextContext := nextContext s + 1\<rparr>)
      else sxAssertFailed ''nextContext < MAX_TRY_CATCH'' EXIT_MAX_TRIES s)"

text \<open>\<open>_sxEnterTry2(code)\<close>, called with what \<open>setjmp\<close> returned: true when entering
  the body, false when a \<open>longjmp\<close> arrived.\<close>

definition sxEnterTry2 :: "int \<Rightarrow> 'u sx_state \<Rightarrow> (bool, 'u) result" where
  "sxEnterTry2 c s =
     (if caught s (nextContext s - 1) < 1000
      then Return (c = 0) (s\<lparr>sxLastJumpCode := c\<rparr>)
      else sxAssertFailed ''contexts[nextContext - 1].caught < 1000'' EXIT_TOO_NESTED s)"

text \<open>\<open>_sxLeaveTry(file, line)\<close>: pop the frame; when the uncatchable flag is set or a
  jump code is pending, throw an entry "rethrown by ENDTRY" to the next frame.\<close>

definition sxLeaveTry :: "string \<Rightarrow> int \<Rightarrow> 'u sx_state \<Rightarrow> (unit, 'u) result" where
  "sxLeaveTry f l s0 =
     (let s = s0\<lparr>nextContext := nextContext s0 - 1\<rparr>
      in if \<not> nextContext s \<ge> 0
         then sxAssertFailed ''--nextContext >= 0'' EXIT_NO_TRY_ON_LEAVE s
         else if hasUncatchable s \<or> sxLastJumpCode s \<noteq> 0
         then throw'
                \<lparr>code = sxLastJumpCode s, uncatchable = False,
                 file' = sxlcpy [] f, line = l,
                 message = take (SX_MAX_TRACE_STRING - 1)
                   ((if hasUncatchable s then ''UNCATCHABLE '' else []) @ ''rethrown by ENDTRY''),
                 extra = NULL\<rparr> s
         else Return () s)"

text \<open>\<open>_sxSetCaught(isFinally)\<close>: count the visit; a catch is granted on the first
  count only (and clears the pending code), a finally while the count is below the
  threshold (and raises the count to it). The returned \<open>char\<close> is given as an \<open>int\<close>.\<close>

definition sxSetCaught :: "bool \<Rightarrow> 'u sx_state \<Rightarrow> (int, 'u) result" where
  "sxSetCaught isFinally s0 =
     (if \<not> nextContext s0 > 0
      then sxAssertFailed ''nextContext > 0'' EXIT_OUTSIDE_CAUGHT s0
      else
        (let cx = nextContext s0 - 1;
             c = caught s0 cx + 1;
             s = s0\<lparr>caught := (caught s0)(cx := c)\<rparr>
         in if \<not> isFinally
            then (if c = 1 then Return 1 (s\<lparr>sxLastJumpCode := 0\<rparr>) else Return 0 s)
            else (if c < FINALLY_THRESHOLD
                  then Return FINALLY_THRESHOLD (s\<lparr>caught := (caught s)(cx := FINALLY_THRESHOLD)\<rparr>)
                  else Return 0 s)))"

text \<open>\<open>clearTrace\<close>: reset the flag and pop every entry, last first, freeing its
  \<open>extra\<close> when that is not null.\<close>

definition clearTrace :: "'u sx_state \<Rightarrow> 'u sx_state" where
  "clearTrace s =
     s\<lparr>hasUncatchable := False,
       freed := freed s @ filter (\<lambda>p. p \<noteq> NULL) (map extra (rev (trace s))),
       trace := []\<rparr>"

definition sxThrow :: "SxTraceEntry \<Rightarrow> 'u sx_state \<Rightarrow> ('a, 'u) result" where
  "sxThrow entry s = throw' entry (clearTrace s)"

definition sxRethrow :: "SxTraceEntry \<Rightarrow> 'u sx_state \<Rightarrow> ('a, 'u) result" where
  "sxRethrow entry s =
     (if \<not> (nextContext s > 0 \<and> sxLastJumpCode s = 0 \<and>
             caught s (nextContext s - 1) < FINALLY_THRESHOLD)
      then sxAssertFailed
             ''nextContext > 0 && !_sxLastJumpCode && contexts[nextContext - 1].caught < FINALLY_THRESHOLD''
             EXIT_OUTSIDE_RETHROW s
      else throw' (if code entry < 1 then entry\<lparr>code := sxLastJumpCode s\<rparr> else entry) s)"

text \<open>\<open>sxCurrentException\<close> (\<open>curex\<close>): a copy of \<open>trace[0]\<close>, or an entry with code
  \<open>-1\<close> when the trace is empty (its other fields are indeterminate in C; here they are
  given fixed values).\<close>

definition sxCurrentException :: "'u sx_state \<Rightarrow> SxTraceEntry" where
  "sxCurrentException s =
     (case trace s of
        e # _ \<Rightarrow> e
      | [] \<Rightarrow> \<lparr>code = -1, uncatchable = False, file' = [], line = 0, message = [], extra = NULL\<rparr>)"

text \<open>The entry constructors \<open>newex()\<close>, \<open>msgex(m)\<close> and \<open>exex(m, e)\<close>: the code is the
  current \<open>errno\<close>; file and line are those of the macro's use.\<close>

definition exex :: "string \<Rightarrow> int \<Rightarrow> string \<Rightarrow> addr \<Rightarrow> 'u sx_state \<Rightarrow> SxTraceEntry" where
  "exex f l m e s =
     \<lparr>code = errno s, uncatchable = False, file' = f, line = l, message = m, extra = e\<rparr>"

definition msgex :: "string \<Rightarrow> int \<Rightarrow> string \<Rightarrow> 'u sx_state \<Rightarrow> SxTraceEntry" where
  "msgex f l m s = exex f l m NULL s"

definition newex :: "string \<Rightarrow> int \<Rightarrow> 'u sx_state \<Rightarrow> SxTraceEntry" where
  "newex f l s = exex f l [] NULL s"

subsection \<open>The block macros\<close>

text \<open>
  Client code between the macros is a function from the state to the way it ends, or
  \<open>None\<close> when it does not end. The macros of saneex.h expand to
  \<^verbatim>\<open>
  try       {{{ if (_sxEnterTry2( setjmp(*_sxEnterTry()) ))
  catch(n)  else if (_sxLastJumpCode == (n) && _sxSetCaught(0))
  catchall  else if (_sxSetCaught(0))
  finally   if (_sxSetCaught(1))
  endtry    _sxLeaveTry(__FILE__, __LINE__); }}}
  \<close>
  so a region is one \<open>if\<close>/\<open>else if\<close> chain (the body first, then the catch clauses
  in source order), followed by the finally statement, followed by the call of
  \<open>_sxLeaveTry\<close>.
\<close>

type_synonym 'u block = "'u sx_state \<Rightarrow> (unit, 'u) result option"

datatype 'u clause =
    Catch int "'u block"
  | CatchAll "'u block"

text \<open>The \<open>else if\<close> chain of the catch clauses: the conditions are evaluated in order
  (with \<open>&&\<close> short-circuiting, so \<open>_sxSetCaught\<close> is called only when the codes are
  equal), the body of the first true condition runs, and the rest of the chain is
  skipped.\<close>

fun catchChain :: "'u clause list \<Rightarrow> 'u block" where
  "catchChain [] s = Some (Return () s)"
| "catchChain (Catch n b # cs) s =
     (if sxLastJumpCode s = n
      then (case sxSetCaught False s of
              Return r s' \<Rightarrow> if r \<noteq> 0 then b s' else catchChain cs s'
            | LongJmp c s' \<Rightarrow> Some (LongJmp c s')
            | ProcExit c s' \<Rightarrow> Some (ProcExit c s'))
      else catchChain cs s)"
| "catchChain (CatchAll b # cs) s =
     (case sxSetCaught False s of
        Return r s' \<Rightarrow> if r \<noteq> 0 then b s' else catchChain cs s'
      | LongJmp c s' \<Rightarrow> Some (LongJmp c s')
      | ProcExit c s' \<Rightarrow> Some (ProcExit c s'))"

text \<open>The finally statement, when the region has one.\<close>

fun finallyClause :: "'u block option \<Rightarrow> 'u block" where
  "finallyClause None s = Some (Return () s)"
| "finallyClause (Some b) s =
     (case sxSetCaught True s of
        Return r s' \<Rightarrow> if r \<noteq> 0 then b s' else Some (Return () s')
      | LongJmp c s' \<Rightarrow> Some (LongJmp c s')
      | ProcExit c s' \<Rightarrow> Some (ProcExit c s'))"

text \<open>
  One return of \<open>setjmp\<close> with value \<open>jc\<close>, and what follows it in the region. A
  \<open>longjmp\<close> out of the body, out of a catch body or out of the finally body targets the
  frame of this region (it is the innermost open one until \<open>_sxLeaveTry\<close> pops it), so
  control comes back to the \<open>setjmp\<close> with the jump value: the function calls itself.
  Nothing in C bounds the number of these returns; the function is partial, and \<open>None\<close>
  is a region that never ends. A \<open>longjmp\<close> made by \<open>_sxLeaveTry\<close> happens after the
  pop and leaves the region.
\<close>

partial_function (option) sxRegion ::
  "'u block \<Rightarrow> 'u clause list \<Rightarrow> 'u block option \<Rightarrow> string \<Rightarrow> int \<Rightarrow> int \<Rightarrow>
   'u sx_state \<Rightarrow> (unit, 'u) result option" where
  "sxRegion body cs fin f l jc s =
     (case sxEnterTry2 jc s of
        ProcExit c s' \<Rightarrow> Some (ProcExit c s')
      | LongJmp c s' \<Rightarrow> Some (LongJmp c s')
      | Return isTry s1 \<Rightarrow>
          (case (if isTry then body s1 else catchChain cs s1) of
             None \<Rightarrow> None
           | Some (ProcExit c s2) \<Rightarrow> Some (ProcExit c s2)
           | Some (LongJmp c s2) \<Rightarrow> sxRegion body cs fin f l c s2
           | Some (Return u s2) \<Rightarrow>
               (case finallyClause fin s2 of
                  None \<Rightarrow> None
                | Some (ProcExit c s3) \<Rightarrow> Some (ProcExit c s3)
                | Some (LongJmp c s3) \<Rightarrow> sxRegion body cs fin f l c s3
                | Some (Return u' s3) \<Rightarrow> Some (sxLeaveTry f l s3))))"

text \<open>\<open>try body catch... finally... endtry\<close>, with the file and line of the
  \<open>endtry\<close>: \<open>_sxEnterTry\<close>, then the first return of \<open>setjmp\<close>, with value 0.\<close>

definition sxTry ::
  "'u block \<Rightarrow> 'u clause list \<Rightarrow> 'u block option \<Rightarrow> string \<Rightarrow> int \<Rightarrow> 'u block" where
  "sxTry body cs fin f l s =
     (case sxEnterTry s of
        Return buf s1 \<Rightarrow> sxRegion body cs fin f l 0 s1
      | LongJmp c s' \<Rightarrow> Some (LongJmp c s')
      | ProcExit c s' \<Rightarrow> Some (ProcExit c s'))"

text \<open>Statement sequencing, and library calls used as statements.\<close>

definition seq :: "'u block \<Rightarrow> 'u block \<Rightarrow> 'u block" where
  "seq a b s =
     (case a s of
        None \<Rightarrow> None
      | Some (Return u s') \<Rightarrow> b s'
      | Some (LongJmp c s') \<Rightarrow> Some (LongJmp c s')
      | Some (ProcExit c s') \<Rightarrow> Some (ProcExit c s'))"

definition throw :: "SxTraceEntry \<Rightarrow> 'u block" where
  "throw e s = Some (sxThrow e s)"

definition rethrow :: "SxTraceEntry \<Rightarrow> 'u block" where
  "rethrow e s = Some (sxRethrow e s)"

definition skip :: "'u block" where
  "skip s = Some (Return () s)"

declare sxRegion.simps [code]

subsection \<open>Client statements used in the examples\<close>

text \<open>The state before anything has run: the initial values of the variables of
  saneex.c (\<open>_sxLastJumpCode = -1\<close>, everything else zero), with \<open>sxTag\<close> and the
  client's variables given.\<close>

definition sxInitial :: "string \<Rightarrow> 'u \<Rightarrow> 'u sx_state" where
  "sxInitial tag u =
     \<lparr>nextContext = 0, caught = (\<lambda>i. 0), sxLastJumpCode = -1, trace = [],
      hasUncatchable = False, sxTag = tag, errno = 0, stderr = [], freed = [],
      mem = (\<lambda>a. 0), cstr = (\<lambda>a. []), user = u\<rparr>"

text \<open>A client statement that records its passage by appending to a string, as
  \<open>PASS\<close> does in saneex-test.c (whose 10-character buffer is not modelled).\<close>

definition mark :: "string \<Rightarrow> string block" where
  "mark c s = Some (Return () (s\<lparr>user := user s @ c\<rparr>))"

text \<open>An entry with a given code, as \<open>newex()\<close> builds it at \<open>main.c:1\<close> when
  \<open>errno\<close> holds that code.\<close>

definition codeex :: "int \<Rightarrow> SxTraceEntry" where
  "codeex c = \<lparr>code = c, uncatchable = False, file' = ''main.c'', line = 1, message = [], extra = NULL\<rparr>"

text \<open>What an observer of the process sees of a run: how it ended, and the client's
  variables at that point; and the engine's state at that point.\<close>

datatype 'u obs = Returned 'u | Jumped int 'u | Exited int 'u | Diverged

fun observe :: "('a, 'u) result option \<Rightarrow> 'u obs" where
  "observe None = Diverged"
| "observe (Some (Return v s)) = Returned (user s)"
| "observe (Some (LongJmp c s)) = Jumped c (user s)"
| "observe (Some (ProcExit c s)) = Exited c (user s)"

fun endState :: "('a, 'u) result option \<Rightarrow> 'u sx_state option" where
  "endState None = None"
| "endState (Some (Return v s)) = Some s"
| "endState (Some (LongJmp c s)) = Some s"
| "endState (Some (ProcExit c s)) = Some s"

subsection \<open>Vocabulary of the specification\<close>

text \<open>A clause selects a pending code when it is a catch-all or its declared code equals
  the pending code.\<close>

fun selects :: "int \<Rightarrow> 'u clause \<Rightarrow> bool" where
  "selects c (Catch n b) = (n = c)"
| "selects c (CatchAll b) = True"

fun clauseBody :: "'u clause \<Rightarrow> 'u block" where
  "clauseBody (Catch n b) = b"
| "clauseBody (CatchAll b) = b"

text \<open>How many clauses of a region select a code.\<close>

definition matching :: "int \<Rightarrow> 'u clause list \<Rightarrow> nat" where
  "matching c cs = length (filter (selects c) cs)"

text \<open>The state in which the body of a claiming catch clause starts: the frame's counter
  is 1 and the pending code is cleared.\<close>

definition claimedBy :: "'u sx_state \<Rightarrow> 'u sx_state" where
  "claimedBy t = t\<lparr>caught := (caught t)(nextContext t - 1 := 1), sxLastJumpCode := 0\<rparr>"

text \<open>The state in which the body of a region starts: the new frame is open with its
  counter at 0, and \<open>setjmp\<close> has returned 0.\<close>

definition regionEntry :: "'u sx_state \<Rightarrow> 'u sx_state" where
  "regionEntry s =
     s\<lparr>caught := (caught s)(nextContext s := 0), nextContext := nextContext s + 1,
       sxLastJumpCode := 0\<rparr>"

text \<open>
  The discipline that saneex.h asks of client code between \<open>try\<close> and \<open>endtry\<close>
  (no \<open>return\<close> or \<open>goto\<close> across the macros, the engine's variables touched through
  the macros only): a block that ends leaves the open frames as they were, and a block
  that leaves through \<open>longjmp\<close> does so with the open frames as they were and with a
  jump value the engine made (1 or more).
\<close>

definition sameFrames :: "'u sx_state \<Rightarrow> 'u sx_state \<Rightarrow> bool" where
  "sameFrames s s' \<longleftrightarrow>
     nextContext s' = nextContext s \<and> (\<forall>i. i < nextContext s \<longrightarrow> caught s' i = caught s i)"

definition keepsFrames :: "'u block \<Rightarrow> bool" where
  "keepsFrames b \<longleftrightarrow>
     (\<forall>s r. b s = Some r \<longrightarrow>
        (case r of
           Return u s' \<Rightarrow> sameFrames s s'
         | LongJmp c s' \<Rightarrow> sameFrames s s' \<and> 1 \<le> c
         | ProcExit c s' \<Rightarrow> True))"

text \<open>
  "Finally runs exactly once, and a throw inside it leaves the region", as a function
  of the state \<open>t\<close> at the finally clause: the finally body runs one time, from \<open>t\<close>
  with the frame's counter at the sentinel. If it ends, the region is left through
  \<open>_sxLeaveTry\<close>. If it throws, no body of the region runs again: the region is left
  through \<open>_sxLeaveTry\<close> with the thrown code pending (the counter has moved by one per
  selecting clause and one for the finally clause, which are visited and refused).
\<close>

definition finallyOnce :: "'u block \<Rightarrow> 'u clause list \<Rightarrow> string \<Rightarrow> int \<Rightarrow> 'u block" where
  "finallyOnce fb cs f l t =
     (let d = nextContext t - 1 in
      case fb (t\<lparr>caught := (caught t)(d := FINALLY_THRESHOLD)\<rparr>) of
        None \<Rightarrow> None
      | Some (Return u t') \<Rightarrow> Some (sxLeaveTry f l t')
      | Some (LongJmp c t') \<Rightarrow>
          Some (sxLeaveTry f l
            (t'\<lparr>sxLastJumpCode := c,
                caught := (caught t')(d := FINALLY_THRESHOLD + int (matching c cs) + 1)\<rparr>))
      | Some (ProcExit e t') \<Rightarrow> Some (ProcExit e t'))"

section \<open>saneobj: class descriptors, method resolution and construction (saneobj.h, saneobj.c)\<close>

text \<open>
  Objects and class descriptors ("VT") live in \<open>mem\<close>. The layouts are those of an LP64
  build with the default options (no \<open>SJ_OBJECT_MAGIC\<close>, no \<open>SJ_TRACE_LIFE\<close>, with
  \<open>extra\<close>): a pointer and a \<open>size_t\<close> take 8 bytes. A descriptor starts with
  \<open>parent\<close>, followed by the fields of \<open>Object_vt_\<close> (\<open>size\<close>, \<open>objectSize\<close>,
  \<open>className\<close>, \<open>new\<close>, \<open>del\<close>) and then the method slots of the class; an object
  starts with its \<open>vt\<close> pointer.
\<close>

definition ptrSize :: nat where
  "ptrSize = 8"

text \<open>Subtraction of two \<open>size_t\<close> values (below \<open>2 ^ 64\<close>), which wraps around.\<close>

definition size_t_sub :: "nat \<Rightarrow> nat \<Rightarrow> nat" where
  "size_t_sub a b = (if b \<le> a then a - b else a + 2 ^ 64 - b)"

definition off_parent :: nat where "off_parent = 0"

definition off_size :: nat where "off_size = 8"

definition off_objectSize :: nat where "off_objectSize = 16"

definition off_className :: nat where "off_className = 24"

definition off_new :: nat where "off_new = 32"

definition off_del :: nat where "off_del = 40"

definition sizeof_Object_vt :: nat where "sizeof_Object_vt = 48"

definition sizeof_Object :: nat where "sizeof_Object = 16"

definition sizeof_Autoref_vt :: nat where "sizeof_Autoref_vt = 64"

definition sizeof_Autoref :: nat where "sizeof_Autoref = 24"

text \<open>\<open>sxprintf(entry, fmt, ...)\<close>: \<open>vsnprintf\<close> into \<open>entry.message\<close>. The second
  argument here is the formatted text; at most \<open>SX_MAX_TRACE_STRING - 1\<close> characters
  of it are kept.\<close>

definition sxprintf :: "SxTraceEntry \<Rightarrow> string \<Rightarrow> SxTraceEntry" where
  "sxprintf entry formatted = entry\<lparr>message := take (SX_MAX_TRACE_STRING - 1) formatted\<rparr>"

text \<open>The decimal digits of a number, for the \<open>%d\<close> and \<open>%p\<close> directives of the
  messages (the form of \<open>%p\<close> is implementation-defined; decimal is used).\<close>

fun showNat :: "nat \<Rightarrow> string" where
  "showNat n =
     (if n < 10 then [char_of (48 + n)]
      else showNat (n div 10) @ [char_of (48 + n mod 10)])"

declare showNat.simps [simp del]

text \<open>\<open>struct SjInheritedMethod\<close>: a descriptor and the address of a slot in it (the
  field \<open>method\<close> is written \<open>method'\<close>).\<close>

record SjInheritedMethod =
  vt :: addr
  method' :: addr

text \<open>
  The \<open>do ... while\<close> loop of \<open>sjInheritedMethod\<close>, from the descriptor \<open>v\<close> with
  the flag \<open>foundMethod\<close>. It ends by one of the two \<open>return\<close>s inside it (\<open>Found\<close>)
  or when the condition fails (\<open>Ended\<close>, with the flag). Nothing bounds the walk along
  \<open>parent\<close>, so the function is partial.
\<close>

datatype walk = Found SjInheritedMethod | Ended bool

partial_function (option) inheritedLoop ::
  "(addr \<Rightarrow> nat) \<Rightarrow> nat \<Rightarrow> addr \<Rightarrow> addr \<Rightarrow> bool \<Rightarrow> walk option" where
  "inheritedLoop M vtOffset methodBody v foundMethod =
     (let ptr = v + vtOffset in
      if foundMethod \<and> M ptr = NULL then Some (Found \<lparr>vt = v, method' = NULL\<rparr>)
      else if foundMethod \<and> M ptr \<noteq> methodBody then Some (Found \<lparr>vt = v, method' = ptr\<rparr>)
      else
        (let found' = (foundMethod \<or> M ptr = methodBody);
             v' = M (v + off_parent)
         in if v' \<noteq> NULL \<and> size_t_sub (M (v' + off_size)) ptrSize \<ge> vtOffset
            then inheritedLoop M vtOffset methodBody v' found'
            else Some (Ended found')))"

declare inheritedLoop.simps [code]

text \<open>\<open>sjInheritedMethod(vt, vtMethod, methodBody)\<close>. The fourth disjunct of its guard,
  \<open>sizeof(vtOffset) < sizeof(ptrdiff_t)\<close>, is false on LP64. \<open>vtOffset\<close> is read only
  past the guard, where \<open>vtMethod\<close> is not below \<open>vt\<close> and the difference is exact. Both
  throws use \<open>newex()\<close> at their line of saneobj.c.\<close>

definition sjInheritedMethod ::
  "addr \<Rightarrow> addr \<Rightarrow> addr \<Rightarrow> 'u sx_state \<Rightarrow> (SjInheritedMethod, 'u) result option" where
  "sjInheritedMethod v vtMethod methodBody s =
     (let className = cstr s (mem s (v + off_className));
          vtOffset = vtMethod - v
      in if vtMethod < v \<or> vtOffset > size_t_sub (mem s (v + off_size)) ptrSize \<or>
            methodBody = NULL
         then Some (sxThrow (sxprintf (newex ''saneobj.c'' 189 s)
                 (''sjInheritedMethod('' @ className @ ''): vtMethod doesn't belong to vt.'')) s)
         else
           (case inheritedLoop (mem s) vtOffset methodBody v False of
              None \<Rightarrow> None
            | Some (Found r) \<Rightarrow> Some (Return r s)
            | Some (Ended True) \<Rightarrow> Some (Return \<lparr>vt = NULL, method' = NULL\<rparr> s)
            | Some (Ended False) \<Rightarrow>
                Some (sxThrow (sxprintf (newex ''saneobj.c'' 233 s)
                  (''sjInheritedMethod('' @ className @
                   ''): methodBody doesn't belong to any vt in the chain.'')) s)))"

text \<open>\<open>sjBaseMethod(vt, vtMethod)\<close>: the \<open>while (1)\<close> loop, carrying \<open>lastInh\<close>. The
  loop hands \<open>lastInh.method\<close> to \<open>sjInheritedMethod\<close> as the method body: the body
  read from the slot at first, the address of a slot after a round that found one.\<close>

partial_function (option) baseMethodLoop ::
  "addr \<Rightarrow> addr \<Rightarrow> SjInheritedMethod \<Rightarrow> 'u sx_state \<Rightarrow> (SjInheritedMethod, 'u) result option" where
  "baseMethodLoop v vtMethod lastInh s =
     (case sjInheritedMethod v vtMethod (method' lastInh) s of
        None \<Rightarrow> None
      | Some (LongJmp c s') \<Rightarrow> Some (LongJmp c s')
      | Some (ProcExit c s') \<Rightarrow> Some (ProcExit c s')
      | Some (Return inh s') \<Rightarrow>
          if method' inh = NULL
          then Some (Return (if vt inh \<noteq> NULL then inh else lastInh) s')
          else baseMethodLoop v vtMethod inh s')"

declare baseMethodLoop.simps [code]

definition sjBaseMethod ::
  "addr \<Rightarrow> addr \<Rightarrow> 'u sx_state \<Rightarrow> (SjInheritedMethod, 'u) result option" where
  "sjBaseMethod v vtMethod s =
     (let methodBody = mem s vtMethod
      in baseMethodLoop v vtMethod \<lparr>vt = v, method' = methodBody\<rparr> s)"

text \<open>\<open>sjHasClass(obj, vt)\<close> and \<open>sjCountParents(vt)\<close>: walks along \<open>parent\<close> that
  stop at a null parent. \<open>obj\<close> is the address of the object, whose first cell is its
  \<open>vt\<close>.\<close>

partial_function (option) hasClassLoop :: "(addr \<Rightarrow> nat) \<Rightarrow> addr \<Rightarrow> addr \<Rightarrow> int option" where
  "hasClassLoop M ovt v =
     (if ovt = v then Some 1
      else (let ovt' = M (ovt + off_parent)
            in if ovt' \<noteq> NULL then hasClassLoop M ovt' v else Some 0))"

declare hasClassLoop.simps [code]

definition sjHasClass :: "(addr \<Rightarrow> nat) \<Rightarrow> addr \<Rightarrow> addr \<Rightarrow> int option" where
  "sjHasClass M obj v = hasClassLoop M (M obj) v"

partial_function (option) countParentsLoop :: "(addr \<Rightarrow> nat) \<Rightarrow> addr \<Rightarrow> int \<Rightarrow> int option" where
  "countParentsLoop M v res =
     (let res' = res + 1; v' = M (v + off_parent)
      in if v' \<noteq> NULL then countParentsLoop M v' res' else Some res')"

declare countParentsLoop.simps [code]

definition sjCountParents :: "(addr \<Rightarrow> nat) \<Rightarrow> addr \<Rightarrow> int option" where
  "sjCountParents M v = countParentsLoop M v (-1)"

text \<open>
  \<open>sjClassList(vt, list, maxList)\<close>: the loop runs while \<open>i < maxList\<close> and \<open>vt\<close> is
  not null, stores \<open>vt->className\<close> in \<open>list[i++]\<close> and goes to the parent. The caller's
  array is the list of the entries stored so far, \<open>list[0]\<close> to \<open>list[i - 1]\<close>; the
  result is that list with the returned count.
\<close>

function classListLoop ::
  "(addr \<Rightarrow> nat) \<Rightarrow> int \<Rightarrow> addr \<Rightarrow> int \<Rightarrow> addr list \<Rightarrow> addr list \<times> int" where
  "classListLoop M maxList v i list =
     (if i < maxList \<and> v \<noteq> NULL
      then classListLoop M maxList (M (v + off_parent)) (i + 1) (list @ [M (v + off_className)])
      else (list, i))"
  by pat_completeness auto

termination
  by (relation "measure (\<lambda>(M, maxList, v, i, list). nat (maxList - i))") auto

declare classListLoop.simps [simp del]

definition sjClassList :: "(addr \<Rightarrow> nat) \<Rightarrow> addr \<Rightarrow> int \<Rightarrow> addr list \<times> int" where
  "sjClassList M v maxList = classListLoop M maxList v 0 []"

text \<open>
  \<open>linkvt(C, P) { body }\<close> in a function \<open>vtC\<close>, for the static descriptor at address
  \<open>v\<close>: when \<open>vt.parent\<close> is still null, set it to what \<open>vtP()\<close> returns, copy the
  parent's fragment (everything after \<open>parent\<close>, up to the size of the parent's
  descriptor), set \<open>size\<close>, \<open>objectSize\<close>, \<open>className\<close> and \<open>new\<close>, and run the
  body, a list of assignments to slots given by their offsets. The result is \<open>&vt\<close>.
\<close>

definition linkvt ::
  "addr \<Rightarrow> ('u sx_state \<Rightarrow> addr \<times> 'u sx_state) \<Rightarrow> nat \<Rightarrow> nat \<Rightarrow> nat \<Rightarrow> addr \<Rightarrow> addr \<Rightarrow>
   (nat \<times> addr) list \<Rightarrow> 'u sx_state \<Rightarrow> addr \<times> 'u sx_state" where
  "linkvt v vtParent sizeofParentVt sizeofVt sizeofClass name ctor body s =
     (if mem s (v + off_parent) = NULL
      then
        (case vtParent s of
           (p, s1) \<Rightarrow>
             (let M1 = (mem s1)(v + off_parent := p);
                  M2 = (\<lambda>a. if v + off_size \<le> a \<and> a < v + sizeofParentVt
                             then M1 (p + (a - v)) else M1 a);
                  M3 = M2(v + off_size := sizeofVt, v + off_objectSize := sizeofClass,
                          v + off_className := name, v + off_new := ctor);
                  M4 = foldl (\<lambda>M (off, val). M(v + off := val)) M3 body
              in (v, s1\<lparr>mem := M4\<rparr>)))
      else (v, s))"

text \<open>One link of the program: the addresses of the library's functions, string
  literals and static descriptors.\<close>

definition Object_new_fn :: addr where "Object_new_fn = 256"

definition Object_del_fn :: addr where "Object_del_fn = 264"

definition Autoref_new_fn :: addr where "Autoref_new_fn = 272"

definition Autoref_take_fn :: addr where "Autoref_take_fn = 280"

definition Autoref_release_fn :: addr where "Autoref_release_fn = 288"

definition str_Object :: addr where "str_Object = 512"

definition str_Autoref :: addr where "str_Autoref = 520"

definition vtObject_static :: addr where "vtObject_static = 1024"

definition vtAutoref_static :: addr where "vtAutoref_static = 1088"

text \<open>The state before \<open>main\<close>: the engine's initial state and the memory image, in
  which the static of \<open>vtObject\<close> has its initialiser
  \<open>{NULL, {sizeof(Object_vt), sizeof(Object), "Object", Object_new, Object_del}}\<close> and
  every other static is zero.\<close>

definition sjInitial :: "string \<Rightarrow> 'u \<Rightarrow> 'u sx_state" where
  "sjInitial tag u =
     (sxInitial tag u)
       \<lparr>mem := (\<lambda>a. 0)
          (vtObject_static + off_parent := NULL,
           vtObject_static + off_size := sizeof_Object_vt,
           vtObject_static + off_objectSize := sizeof_Object,
           vtObject_static + off_className := str_Object,
           vtObject_static + off_new := Object_new_fn,
           vtObject_static + off_del := Object_del_fn),
        cstr := (\<lambda>a. [])(str_Object := ''Object'', str_Autoref := ''Autoref'')\<rparr>"

definition vtObject :: "'u sx_state \<Rightarrow> addr \<times> 'u sx_state" where
  "vtObject s = (vtObject_static, s)"

definition vtAutoref :: "'u sx_state \<Rightarrow> addr \<times> 'u sx_state" where
  "vtAutoref s =
     linkvt vtAutoref_static vtObject sizeof_Object_vt sizeof_Autoref_vt sizeof_Autoref
       str_Autoref Autoref_new_fn [(48, Autoref_take_fn), (56, Autoref_release_fn)] s"

text \<open>\<open>makeEx(file, line)\<close> of saneobj.c, and \<open>sjFree\<close> (\<open>free\<close> by default).\<close>

definition makeEx :: "string \<Rightarrow> int \<Rightarrow> SxTraceEntry" where
  "makeEx f l =
     \<lparr>code = 0, uncatchable = False, file' = sxlcpy [] f, line = l, message = [], extra = NULL\<rparr>"

definition sjFree :: "addr \<Rightarrow> 'u sx_state \<Rightarrow> 'u sx_state" where
  "sjFree p s = s\<lparr>freed := freed s @ [p]\<rparr>"

text \<open>
  \<open>sjNew(ctor, params, size, file, line)\<close>. \<open>sjAlloc\<close> is an overridable macro
  (\<open>calloc\<close> by default) and is a parameter: it returns the block's address, or null.
  \<open>ctor\<close> is the function the pointer designates and \<open>ctorAddr\<close> the pointer itself
  (printed by the messages). The volatile local \<open>o\<close> is the memory cell \<open>o_addr\<close>. The
  region's \<open>endtry\<close> stands at saneobj.c:127.
\<close>

definition sjNew ::
  "(nat \<Rightarrow> 'u sx_state \<Rightarrow> addr \<times> 'u sx_state) \<Rightarrow>
   (addr \<Rightarrow> addr \<Rightarrow> 'u sx_state \<Rightarrow> (addr, 'u) result option) \<Rightarrow> addr \<Rightarrow>
   addr \<Rightarrow> nat \<Rightarrow> string \<Rightarrow> int \<Rightarrow> addr \<Rightarrow> 'u sx_state \<Rightarrow> (addr, 'u) result option" where
  "sjNew sjAlloc ctor ctorAddr params sz f l o_addr s =
     (case sjAlloc sz s of
        (allocated, s0) \<Rightarrow>
          if allocated = NULL
          then Some (sxThrow (sxprintf (makeEx f l) (''sjAlloc('' @ showNat sz @ '') error.'')) s0)
          else
            (case sxTry
                    (\<lambda>t. case ctor allocated params t of
                            None \<Rightarrow> None
                          | Some (Return v t') \<Rightarrow> Some (Return () (t'\<lparr>mem := (mem t')(o_addr := v)\<rparr>))
                          | Some (LongJmp c t') \<Rightarrow> Some (LongJmp c t')
                          | Some (ProcExit c t') \<Rightarrow> Some (ProcExit c t'))
                    [CatchAll
                       (\<lambda>t. Some (sxRethrow
                                (sxprintf (makeEx f l) (''ctor('' @ showNat ctorAddr @ '') error.''))
                                (sjFree allocated t)))]
                    None ''saneobj.c'' 127 s0 of
               None \<Rightarrow> None
             | Some (LongJmp c s1) \<Rightarrow> Some (LongJmp c s1)
             | Some (ProcExit c s1) \<Rightarrow> Some (ProcExit c s1)
             | Some (Return u s1) \<Rightarrow>
                 (let obj = mem s1 o_addr
                  in if obj \<noteq> allocated
                     then
                       (let s2 = sjFree allocated s1
                        in if obj = NULL
                           then Some (sxThrow (sxprintf (makeEx f l)
                                  (''ctor('' @ showNat ctorAddr @ '') returned NULL.'')) s2)
                           else
                             (case vtAutoref s2 of
                                (ar, s3) \<Rightarrow>
                                  (case sjHasClass (mem s3) obj ar of
                                     None \<Rightarrow> None
                                   | Some h \<Rightarrow>
                                       if h = 0
                                       then Some (sxThrow (sxprintf (makeEx f l)
                                              (''ctor('' @ showNat ctorAddr @
                                               '') returned a non-input object ('' @
                                               cstr s3 (mem s3 (mem s3 obj + off_className)) @
                                               '' at '' @ showNat obj @
                                               '') that doesn't extend Autoref.'')) s3)
                                       else Some (Return obj s3))))
                     else Some (Return obj s1))))"

subsection \<open>Descriptor chains\<close>

text \<open>Following \<open>parent\<close> from \<open>v\<close> meets no null descriptor and reaches, after \<open>n\<close>
  steps, a descriptor whose parent is null; and the descriptors met on the way.\<close>

primrec reachesRoot :: "(addr \<Rightarrow> nat) \<Rightarrow> nat \<Rightarrow> addr \<Rightarrow> bool" where
  "reachesRoot M 0 v = (v \<noteq> NULL \<and> M (v + off_parent) = NULL)"
| "reachesRoot M (Suc n) v =
     (v \<noteq> NULL \<and> M (v + off_parent) \<noteq> NULL \<and> reachesRoot M n (M (v + off_parent)))"

primrec chainOf :: "(addr \<Rightarrow> nat) \<Rightarrow> nat \<Rightarrow> addr \<Rightarrow> addr list" where
  "chainOf M 0 v = [v]"
| "chainOf M (Suc n) v = v # chainOf M n (M (v + off_parent))"

subsection \<open>A three-level hierarchy\<close>

text \<open>
  \<open>Root\<close> extends \<open>Object\<close> and declares one method \<open>m\<close> (the slot after \<open>del\<close>),
  which it leaves null: abstract. \<open>Mid\<close> extends \<open>Root\<close> and \<open>Leaf\<close> extends \<open>Mid\<close>;
  neither adds a slot, \<open>Mid\<close> assigns none, and \<open>Leaf\<close> assigns \<open>m\<close> or not. None of
  the three adds instance fields.
\<close>

definition str_Root :: addr where "str_Root = 528"

definition str_Mid :: addr where "str_Mid = 536"

definition str_Leaf :: addr where "str_Leaf = 544"

definition Root_new_fn :: addr where "Root_new_fn = 296"

definition Mid_new_fn :: addr where "Mid_new_fn = 304"

definition Leaf_new_fn :: addr where "Leaf_new_fn = 312"

definition Leaf_m_fn :: addr where "Leaf_m_fn = 320"

definition vtRoot_static :: addr where "vtRoot_static = 2048"

definition vtMid_static :: addr where "vtMid_static = 3072"

definition vtLeaf_static :: addr where "vtLeaf_static = 4096"

definition off_m :: nat where "off_m = 48"

definition vtRoot :: "'u sx_state \<Rightarrow> addr \<times> 'u sx_state" where
  "vtRoot s = linkvt vtRoot_static vtObject sizeof_Object_vt 56 sizeof_Object str_Root Root_new_fn [] s"

definition vtMid :: "'u sx_state \<Rightarrow> addr \<times> 'u sx_state" where
  "vtMid s = linkvt vtMid_static vtRoot 56 56 sizeof_Object str_Mid Mid_new_fn [] s"

definition vtLeaf :: "bool \<Rightarrow> 'u sx_state \<Rightarrow> addr \<times> 'u sx_state" where
  "vtLeaf overrides s =
     linkvt vtLeaf_static vtMid 56 56 sizeof_Object str_Leaf Leaf_new_fn
       (if overrides then [(off_m, Leaf_m_fn)] else []) s"

text \<open>The state after \<open>vtLeaf()\<close> has built the three descriptors, inside one open
  region (so that a throw is a jump).\<close>

definition hierarchy :: "bool \<Rightarrow> unit sx_state" where
  "hierarchy overrides =
     snd (vtLeaf overrides
       ((sjInitial ''tag'' ())
          \<lparr>cstr := (cstr (sjInitial ''tag'' ()))
             (str_Root := ''Root'', str_Mid := ''Mid'', str_Leaf := ''Leaf''),
           nextContext := 1\<rparr>))"

section \<open>Properties of the exception engine\<close>

subsection \<open>Single steps\<close>

lemma cint_exact [simp]: "- 2147483648 \<le> x \<Longrightarrow> x < 2147483648 \<Longrightarrow> cint x = x"
  by (simp add: cint_def)

lemma sxSetCaught_catch_first:
  "0 < nextContext t \<Longrightarrow> caught t (nextContext t - 1) = 0 \<Longrightarrow>
   sxSetCaught False t = Return 1 (claimedBy t)"
  by (simp add: sxSetCaught_def claimedBy_def Let_def)

lemma sxSetCaught_catch_later:
  "0 < nextContext t \<Longrightarrow> 1 \<le> caught t (nextContext t - 1) \<Longrightarrow>
   sxSetCaught False t =
     Return 0 (t\<lparr>caught := (caught t)(nextContext t - 1 := caught t (nextContext t - 1) + 1)\<rparr>)"
  by (simp add: sxSetCaught_def Let_def)

lemma sxEnterTry2_ok:
  "caught t (nextContext t - 1) < 1000 \<Longrightarrow>
   sxEnterTry2 c t = Return (c = 0) (t\<lparr>sxLastJumpCode := c\<rparr>)"
  by (simp add: sxEnterTry2_def)

lemma throw'_frames:
  "throw' e s = LongJmp c s' \<Longrightarrow>
   nextContext s' = nextContext s \<and> caught s' = caught s \<and> 1 \<le> c \<and> 0 < nextContext s"
  by (auto simp: throw'_def sxAddTraceEntry_def Let_def split: if_splits)

lemma throw'_no_return: "throw' e s \<noteq> Return u s'"
  by (simp add: throw'_def Let_def)

lemma regionEntry_simps [simp]:
  "nextContext (regionEntry s) = nextContext s + 1"
  "caught (regionEntry s) (nextContext s) = 0"
  by (simp_all add: regionEntry_def)

lemma claimedBy_simps [simp]:
  "nextContext (claimedBy t) = nextContext t"
  "caught (claimedBy t) (nextContext t - 1) = 1"
  by (simp_all add: claimedBy_def)

lemma sxLeaveTry_pending:
  assumes "0 < nextContext t" and "1 \<le> sxLastJumpCode t"
  shows "(case sxLeaveTry f l t of
            Return u t' \<Rightarrow> False
          | LongJmp c t' \<Rightarrow> c = sxLastJumpCode t \<and> nextContext t' = nextContext t - 1 \<and> 1 < nextContext t
          | ProcExit e t' \<Rightarrow> nextContext t = 1)"
  using assms
  by (simp add: sxLeaveTry_def throw'_def sxAddTraceEntry_def sxPrintTrace_def Let_def)

subsection \<open>The catch chain and the finally clause\<close>

text \<open>In a frame that no catch has claimed, the chain runs the body of the first
  selecting clause, from the claimed state, and nothing else.\<close>

lemma catchChain_fresh:
  "0 < nextContext t \<Longrightarrow> caught t (nextContext t - 1) = 0 \<Longrightarrow>
   catchChain cs t =
     (case find (selects (sxLastJumpCode t)) cs of
        None \<Rightarrow> Some (Return () t)
      | Some cl \<Rightarrow> clauseBody cl (claimedBy t))"
proof (induction cs)
  case Nil
  then show ?case by simp
next
  case (Cons cl cs)
  then show ?case
    by (cases cl) (simp_all add: sxSetCaught_catch_first)
qed

text \<open>In a frame whose counter is already 1 or more, every selecting clause is visited
  and refused: the counter moves, no body runs.\<close>

lemma catchChain_claimed:
  "0 < nextContext t \<Longrightarrow> 1 \<le> caught t (nextContext t - 1) \<Longrightarrow>
   catchChain cs t =
     Some (Return () (t\<lparr>caught := (caught t)(nextContext t - 1 :=
        caught t (nextContext t - 1) + int (matching (sxLastJumpCode t) cs))\<rparr>))"
proof (induction cs arbitrary: t)
  case Nil
  then show ?case by (simp add: matching_def)
next
  case (Cons cl cs)
  let ?t' = "t\<lparr>caught := (caught t)(nextContext t - 1 := caught t (nextContext t - 1) + 1)\<rparr>"
  have t': "0 < nextContext ?t'" "1 \<le> caught ?t' (nextContext ?t' - 1)"
    using Cons.prems by simp_all
  show ?case
  proof (cases "selects (sxLastJumpCode t) cl")
    case True
    have step: "catchChain (cl # cs) t = catchChain cs ?t'"
      using True Cons.prems by (cases cl) (simp_all add: sxSetCaught_catch_later)
    have m: "int (matching (sxLastJumpCode t) (cl # cs)) = 1 + int (matching (sxLastJumpCode t) cs)"
      using True by (simp add: matching_def)
    have st: "?t'\<lparr>caught := (caught ?t')(nextContext ?t' - 1 :=
        caught ?t' (nextContext ?t' - 1) + int (matching (sxLastJumpCode ?t') cs))\<rparr> =
      t\<lparr>caught := (caught t)(nextContext t - 1 :=
        caught t (nextContext t - 1) + int (matching (sxLastJumpCode t) (cl # cs)))\<rparr>"
      unfolding m by (simp add: add.assoc)
    show ?thesis
      unfolding step Cons.IH [OF t'] st ..
  next
    case False
    have step: "catchChain (cl # cs) t = catchChain cs t"
      using False by (cases cl) simp_all
    have m: "matching (sxLastJumpCode t) (cl # cs) = matching (sxLastJumpCode t) cs"
      using False by (simp add: matching_def)
    show ?thesis
      unfolding step m by (rule Cons.IH [OF Cons.prems])
  qed
qed

lemma catchChain_skip_nonpositive:
  "1 \<le> sxLastJumpCode t \<Longrightarrow> n \<le> 0 \<Longrightarrow>
   catchChain (cs1 @ Catch n b # cs2) t = catchChain (cs1 @ cs2) t"
proof (induction cs1 arbitrary: t)
  case Nil
  then show ?case by simp
next
  case (Cons cl cs1)
  have keep: "sxSetCaught False t = Return r t' \<Longrightarrow> r = 0 \<Longrightarrow> sxLastJumpCode t' = sxLastJumpCode t"
    for r t'
    by (auto simp: sxSetCaught_def sxAssertFailed_def Let_def split: if_splits)
  show ?case
  proof (cases cl)
    case (Catch m b')
    show ?thesis
    proof (cases "sxSetCaught False t")
      case (Return r t')
      then show ?thesis using Catch Cons keep [OF Return] by simp
    qed (simp_all add: Catch Cons)
  next
    case (CatchAll b')
    show ?thesis
    proof (cases "sxSetCaught False t")
      case (Return r t')
      then show ?thesis using CatchAll Cons keep [OF Return] by simp
    qed (simp_all add: CatchAll Cons)
  qed
qed

lemma finallyClause_runs:
  "0 < nextContext t \<Longrightarrow> caught t (nextContext t - 1) + 1 < 50 \<Longrightarrow>
   finallyClause (Some fb) t = fb (t\<lparr>caught := (caught t)(nextContext t - 1 := 50)\<rparr>)"
  by (simp add: sxSetCaught_def Let_def FINALLY_THRESHOLD_def)

lemma finallyClause_skipped:
  "0 < nextContext t \<Longrightarrow> 50 \<le> caught t (nextContext t - 1) + 1 \<Longrightarrow>
   finallyClause (Some fb) t =
     Some (Return () (t\<lparr>caught := (caught t)(nextContext t - 1 := caught t (nextContext t - 1) + 1)\<rparr>))"
  by (simp add: sxSetCaught_def Let_def FINALLY_THRESHOLD_def)

lemma finallyClause_None [simp]: "finallyClause None s = Some (Return () s)"
  by simp

declare finallyClause.simps [simp del]

subsection \<open>Blocks that keep the frames\<close>

lemma keepsFramesD_Return:
  "keepsFrames b \<Longrightarrow> b s = Some (Return u s') \<Longrightarrow> i < nextContext s \<Longrightarrow>
   nextContext s' = nextContext s \<and> caught s' i = caught s i"
  by (fastforce simp: keepsFrames_def sameFrames_def)

lemma keepsFramesD_LongJmp:
  "keepsFrames b \<Longrightarrow> b s = Some (LongJmp c s') \<Longrightarrow> i < nextContext s \<Longrightarrow>
   nextContext s' = nextContext s \<and> caught s' i = caught s i \<and> 1 \<le> c"
  by (fastforce simp: keepsFrames_def sameFrames_def)

lemma keepsFrames_throw: "keepsFrames (throw e)"
  unfolding keepsFrames_def throw_def sxThrow_def
  by (auto simp: sameFrames_def clearTrace_def throw'_no_return split: result.splits
      dest!: throw'_frames)

lemma keepsFrames_rethrow: "keepsFrames (rethrow e)"
  unfolding keepsFrames_def rethrow_def sxRethrow_def
  by (auto simp: sameFrames_def sxAssertFailed_def throw'_no_return
      split: result.splits if_splits dest!: throw'_frames)

lemma keepsFrames_skip: "keepsFrames skip"
  by (simp add: keepsFrames_def skip_def sameFrames_def)

lemma keepsFrames_mark: "keepsFrames (mark c)"
  by (auto simp: keepsFrames_def mark_def sameFrames_def)

lemma keepsFrames_seq: "keepsFrames a \<Longrightarrow> keepsFrames b \<Longrightarrow> keepsFrames (seq a b)"
  unfolding keepsFrames_def seq_def sameFrames_def
  apply (intro allI impI)
  subgoal for s r
    apply (cases "a s")
     apply simp
    subgoal for ra
      apply (cases ra)
        apply (cases r; fastforce)
       apply (cases r; fastforce)
      apply (cases r; fastforce)
      done
    done
  done

subsection \<open>Returns of \<open>setjmp\<close> in a region\<close>

lemma sxTry_unfold:
  assumes "nextContext s < MAX_TRY_CATCH"
  shows "sxTry body cs fin f l s =
     (case body (regionEntry s) of
        None \<Rightarrow> None
      | Some (ProcExit e s2) \<Rightarrow> Some (ProcExit e s2)
      | Some (LongJmp c s2) \<Rightarrow> sxRegion body cs fin f l c s2
      | Some (Return u s2) \<Rightarrow>
          (case finallyClause fin s2 of
             None \<Rightarrow> None
           | Some (ProcExit e s3) \<Rightarrow> Some (ProcExit e s3)
           | Some (LongJmp c' s3) \<Rightarrow> sxRegion body cs fin f l c' s3
           | Some (Return u' s3) \<Rightarrow> Some (sxLeaveTry f l s3)))"
proof -
  let ?s1 = "s\<lparr>caught := (caught s)(nextContext s := 0), nextContext := nextContext s + 1\<rparr>"
  have e: "sxEnterTry s = Return (nextContext s) ?s1"
    using assms by (simp add: sxEnterTry_def)
  have e2: "sxEnterTry2 0 ?s1 = Return True (regionEntry s)"
    by (simp add: sxEnterTry2_def regionEntry_def)
  show ?thesis
    unfolding sxTry_def e by (simp, rule trans [OF sxRegion.simps]) (simp add: e2)
qed

lemma sxRegion_arbitrate:
  assumes "0 < nextContext t" and "caught t (nextContext t - 1) = 0" and "c \<noteq> 0"
  shows "sxRegion body cs fin f l c t =
     (case (case find (selects c) cs of
              None \<Rightarrow> Some (Return () (t\<lparr>sxLastJumpCode := c\<rparr>))
            | Some cl \<Rightarrow> clauseBody cl (claimedBy (t\<lparr>sxLastJumpCode := c\<rparr>))) of
        None \<Rightarrow> None
      | Some (ProcExit e s2) \<Rightarrow> Some (ProcExit e s2)
      | Some (LongJmp c' s2) \<Rightarrow> sxRegion body cs fin f l c' s2
      | Some (Return u s2) \<Rightarrow>
          (case finallyClause fin s2 of
             None \<Rightarrow> None
           | Some (ProcExit e s3) \<Rightarrow> Some (ProcExit e s3)
           | Some (LongJmp c' s3) \<Rightarrow> sxRegion body cs fin f l c' s3
           | Some (Return u' s3) \<Rightarrow> Some (sxLeaveTry f l s3)))"
proof -
  let ?t = "t\<lparr>sxLastJumpCode := c\<rparr>"
  have e: "sxEnterTry2 c t = Return False ?t"
    using assms by (simp add: sxEnterTry2_ok)
  have ch: "catchChain cs ?t =
     (case find (selects (sxLastJumpCode ?t)) cs of
        None \<Rightarrow> Some (Return () ?t)
      | Some cl \<Rightarrow> clauseBody cl (claimedBy ?t))"
    by (rule catchChain_fresh) (use assms in simp_all)
  show ?thesis
    by (rule trans [OF sxRegion.simps]) (simp add: e ch)
qed

text \<open>What follows a return of \<open>setjmp\<close> with a nonzero value in a frame that a catch
  has claimed before or whose finally has run.\<close>

lemma sxRegion_reentry:
  assumes "0 < nextContext t" and "1 \<le> caught t (nextContext t - 1)"
    and "caught t (nextContext t - 1) < 1000" and "c \<noteq> 0"
  shows "sxRegion body cs fin f l c t =
     (case finallyClause fin
             (t\<lparr>sxLastJumpCode := c,
                caught := (caught t)(nextContext t - 1 :=
                  caught t (nextContext t - 1) + int (matching c cs))\<rparr>) of
        None \<Rightarrow> None
      | Some (ProcExit e s3) \<Rightarrow> Some (ProcExit e s3)
      | Some (LongJmp c' s3) \<Rightarrow> sxRegion body cs fin f l c' s3
      | Some (Return u s3) \<Rightarrow> Some (sxLeaveTry f l s3))"
proof -
  let ?t = "t\<lparr>sxLastJumpCode := c\<rparr>"
  have e: "sxEnterTry2 c t = Return False ?t"
    using assms by (simp add: sxEnterTry2_ok)
  have ch: "catchChain cs ?t =
    Some (Return () (?t\<lparr>caught := (caught ?t)(nextContext ?t - 1 :=
        caught ?t (nextContext ?t - 1) + int (matching (sxLastJumpCode ?t) cs))\<rparr>))"
    by (rule catchChain_claimed) (use assms in simp_all)
  show ?thesis
    by (rule trans [OF sxRegion.simps]) (simp add: e ch)
qed

lemma sxRegion_after_finally:
  assumes "0 < nextContext t" and "caught t (nextContext t - 1) = FINALLY_THRESHOLD" and "c \<noteq> 0"
  shows "sxRegion body cs (Some fb) f l c t =
     Some (sxLeaveTry f l
        (t\<lparr>sxLastJumpCode := c,
           caught := (caught t)(nextContext t - 1 := FINALLY_THRESHOLD + int (matching c cs) + 1)\<rparr>))"
proof -
  have fin: "finallyClause (Some fb)
       (t\<lparr>sxLastJumpCode := c,
          caught := (caught t)(nextContext t - 1 := 50 + int (matching c cs))\<rparr>) =
     Some (Return ()
       (t\<lparr>sxLastJumpCode := c,
          caught := (caught t)(nextContext t - 1 := 51 + int (matching c cs))\<rparr>))"
    by (subst finallyClause_skipped) (use assms in simp_all)
  show ?thesis
    by (subst sxRegion_reentry) (use assms in \<open>simp_all add: FINALLY_THRESHOLD_def fin\<close>)
qed

lemma finally_then_leave:
  assumes kf: "keepsFrames fb" and nc: "0 < nextContext t"
    and lt: "caught t (nextContext t - 1) + 1 < 50"
  shows "(case finallyClause (Some fb) t of
        None \<Rightarrow> None
      | Some (ProcExit e s3) \<Rightarrow> Some (ProcExit e s3)
      | Some (LongJmp c' s3) \<Rightarrow> sxRegion body cs (Some fb) f l c' s3
      | Some (Return u s3) \<Rightarrow> Some (sxLeaveTry f l s3)) = finallyOnce fb cs f l t"
proof -
  let ?tF = "t\<lparr>caught := (caught t)(nextContext t - 1 := FINALLY_THRESHOLD)\<rparr>"
  have run: "finallyClause (Some fb) t = fb ?tF"
    using finallyClause_runs [OF nc lt] by (simp add: FINALLY_THRESHOLD_def)
  show ?thesis
  proof (cases "fb ?tF")
    case None
    then show ?thesis by (simp add: run finallyOnce_def)
  next
    case (Some r)
    show ?thesis
    proof (cases r)
      case (Return u s3)
      then show ?thesis using Some by (simp add: run finallyOnce_def)
    next
      case (ProcExit e s3)
      then show ?thesis using Some by (simp add: run finallyOnce_def)
    next
      case (LongJmp c' s3)
      have "nextContext ?tF - 1 < nextContext ?tF" by simp
      from keepsFramesD_LongJmp [OF kf _ this, of c' s3] Some LongJmp
      have k: "nextContext s3 = nextContext t" "caught s3 (nextContext t - 1) = FINALLY_THRESHOLD" "1 \<le> c'"
        by simp_all
      have "sxRegion body cs (Some fb) f l c' s3 =
        Some (sxLeaveTry f l
          (s3\<lparr>sxLastJumpCode := c',
             caught := (caught s3)(nextContext s3 - 1 := FINALLY_THRESHOLD + int (matching c' cs) + 1)\<rparr>))"
        by (rule sxRegion_after_finally) (use k nc in simp_all)
      then show ?thesis using Some LongJmp k by (simp add: run finallyOnce_def)
    qed
  qed
qed

lemmas engine_defs =
  sxInitial_def regionEntry_def claimedBy_def codeex_def mark_def skip_def throw_def rethrow_def
  sxThrow_def sxRethrow_def throw'_def clearTrace_def sxAddTraceEntry_def sxPrintTrace_def
  sxLeaveTry_def sxlcpy_def sxlcpyn_def sxAssertFailed_def
  MAX_TRACE_def MAX_TRY_CATCH_def SX_MAX_TRACE_STRING_def FINALLY_THRESHOLD_def EXIT_UNCAUGHT_def
  EXIT_OUTSIDE_RETHROW_def NULL_def Let_def

subsection \<open>The finally clause of a region\<close>

text \<open>
  For a region with a finally clause, entered with fewer than 100 frames open, whose bodies
  keep the frames: the finally body runs exactly once (the region equals \<open>finallyOnce\<close> at
  the state the catch phase left) when the body ends normally, when the body throws and no
  clause selects the code, when the body throws and the claiming catch body ends normally,
  and, as long as fewer than 48 clauses of the region select the code it throws, when the
  claiming catch body itself throws. A throw out of the finally body re-enters neither the
  catch bodies nor the finally body: the region is left with the code pending, and
  \<open>_sxLeaveTry\<close> with a pending code never returns; it jumps to the next enclosing frame
  with that code, or ends the process when there is none.
\<close>

lemma region_finally_once:
  assumes body: "keepsFrames body"
    and cls: "\<forall>cl \<in> set cs. keepsFrames (clauseBody cl)"
    and fin: "keepsFrames fb"
    and d0: "0 \<le> nextContext (s :: 'u sx_state)" and d1: "nextContext s < MAX_TRY_CATCH"
  shows "(\<forall>u s2. body (regionEntry s) = Some (Return u s2) \<longrightarrow>
            sxTry body cs (Some fb) f l s = finallyOnce fb cs f l s2) \<and>
         (\<forall>c s2. body (regionEntry s) = Some (LongJmp c s2) \<longrightarrow>
            (case find (selects c) cs of
               None \<Rightarrow>
                 sxTry body cs (Some fb) f l s = finallyOnce fb cs f l (s2\<lparr>sxLastJumpCode := c\<rparr>)
             | Some cl \<Rightarrow>
                 (case clauseBody cl (claimedBy (s2\<lparr>sxLastJumpCode := c\<rparr>)) of
                    None \<Rightarrow> sxTry body cs (Some fb) f l s = None
                  | Some (ProcExit e s3) \<Rightarrow> sxTry body cs (Some fb) f l s = Some (ProcExit e s3)
                  | Some (Return u s3) \<Rightarrow>
                      sxTry body cs (Some fb) f l s = finallyOnce fb cs f l s3
                  | Some (LongJmp c' s3) \<Rightarrow>
                      matching c' cs < 48 \<longrightarrow>
                      sxTry body cs (Some fb) f l s =
                        finallyOnce fb cs f l
                          (s3\<lparr>sxLastJumpCode := c',
                              caught := (caught s3)(nextContext s := 1 + int (matching c' cs))\<rparr>)))) \<and>
         (\<forall>t :: 'u sx_state. 0 < nextContext t \<longrightarrow> 1 \<le> sxLastJumpCode t \<longrightarrow>
            (case sxLeaveTry f l t of
               Return u t' \<Rightarrow> False
             | LongJmp c t' \<Rightarrow>
                 c = sxLastJumpCode t \<and> nextContext t' = nextContext t - 1 \<and> 1 < nextContext t
             | ProcExit e t' \<Rightarrow> nextContext t = 1))"
proof (intro conjI allI impI)
  fix u s2
  assume b: "body (regionEntry s) = Some (Return u s2)"
  have "nextContext s < nextContext (regionEntry s)" by simp
  from keepsFramesD_Return [OF body b this]
  have k: "nextContext s2 = nextContext s + 1" "caught s2 (nextContext s) = 0" by simp_all
  have "(case finallyClause (Some fb) s2 of
        None \<Rightarrow> None
      | Some (ProcExit e s3) \<Rightarrow> Some (ProcExit e s3)
      | Some (LongJmp c' s3) \<Rightarrow> sxRegion body cs (Some fb) f l c' s3
      | Some (Return u s3) \<Rightarrow> Some (sxLeaveTry f l s3)) = finallyOnce fb cs f l s2"
    by (rule finally_then_leave [OF fin]) (use k d0 in simp_all)
  then show "sxTry body cs (Some fb) f l s = finallyOnce fb cs f l s2"
    by (simp add: sxTry_unfold [OF d1] b)
next
  fix c s2
  assume b: "body (regionEntry s) = Some (LongJmp c s2)"
  have "nextContext s < nextContext (regionEntry s)" by simp
  from keepsFramesD_LongJmp [OF body b this]
  have k: "nextContext s2 = nextContext s + 1" "caught s2 (nextContext s) = 0" "1 \<le> c" by simp_all
  let ?tA = "s2\<lparr>sxLastJumpCode := c\<rparr>"
  let ?R = "sxTry body cs (Some fb) f l s"
  have step1: "?R = sxRegion body cs (Some fb) f l c s2"
    by (simp add: sxTry_unfold [OF d1] b)
  have arb: "sxRegion body cs (Some fb) f l c s2 =
     (case (case find (selects c) cs of
              None \<Rightarrow> Some (Return () ?tA)
            | Some cl \<Rightarrow> clauseBody cl (claimedBy ?tA)) of
        None \<Rightarrow> None
      | Some (ProcExit e s2) \<Rightarrow> Some (ProcExit e s2)
      | Some (LongJmp c' s2) \<Rightarrow> sxRegion body cs (Some fb) f l c' s2
      | Some (Return u s2) \<Rightarrow>
          (case finallyClause (Some fb) s2 of
             None \<Rightarrow> None
           | Some (ProcExit e s3) \<Rightarrow> Some (ProcExit e s3)
           | Some (LongJmp c' s3) \<Rightarrow> sxRegion body cs (Some fb) f l c' s3
           | Some (Return u' s3) \<Rightarrow> Some (sxLeaveTry f l s3)))"
    by (rule sxRegion_arbitrate) (use k d0 in simp_all)
  show "case find (selects c) cs of
               None \<Rightarrow>
                 ?R = finallyOnce fb cs f l ?tA
             | Some cl \<Rightarrow>
                 (case clauseBody cl (claimedBy ?tA) of
                    None \<Rightarrow> ?R = None
                  | Some (ProcExit e s3) \<Rightarrow> ?R = Some (ProcExit e s3)
                  | Some (Return u s3) \<Rightarrow> ?R = finallyOnce fb cs f l s3
                  | Some (LongJmp c' s3) \<Rightarrow>
                      matching c' cs < 48 \<longrightarrow>
                      ?R = finallyOnce fb cs f l
                          (s3\<lparr>sxLastJumpCode := c',
                              caught := (caught s3)(nextContext s := 1 + int (matching c' cs))\<rparr>))"
  proof (cases "find (selects c) cs")
    case None
    have "(case finallyClause (Some fb) ?tA of
        None \<Rightarrow> None
      | Some (ProcExit e s3) \<Rightarrow> Some (ProcExit e s3)
      | Some (LongJmp c' s3) \<Rightarrow> sxRegion body cs (Some fb) f l c' s3
      | Some (Return u s3) \<Rightarrow> Some (sxLeaveTry f l s3)) = finallyOnce fb cs f l ?tA"
      by (rule finally_then_leave [OF fin]) (use k d0 in simp_all)
    then show ?thesis using None by (simp add: step1 arb)
  next
    case (Some cl)
    then have "cl \<in> set cs" by (auto simp: find_Some_iff)
    with cls have kcl: "keepsFrames (clauseBody cl)" by blast
    let ?tC = "claimedBy ?tA"
    have tC: "nextContext ?tC = nextContext s + 1" "caught ?tC (nextContext s) = 1"
      using k claimedBy_simps(2) [of ?tA] by simp_all
    show ?thesis
    proof (cases "clauseBody cl ?tC")
      case None
      then show ?thesis using Some by (simp add: step1 arb)
    next
      case r: (Some r)
      show ?thesis
      proof (cases r)
        case (ProcExit e s3)
        then show ?thesis using Some r by (simp add: step1 arb)
      next
        case (Return u s3)
        have "nextContext s < nextContext ?tC" using tC by simp
        from keepsFramesD_Return [OF kcl _ this, of u s3] r Return tC
        have k3: "nextContext s3 = nextContext s + 1" "caught s3 (nextContext s) = 1" by simp_all
        have "(case finallyClause (Some fb) s3 of
            None \<Rightarrow> None
          | Some (ProcExit e s3) \<Rightarrow> Some (ProcExit e s3)
          | Some (LongJmp c' s3) \<Rightarrow> sxRegion body cs (Some fb) f l c' s3
          | Some (Return u s3) \<Rightarrow> Some (sxLeaveTry f l s3)) = finallyOnce fb cs f l s3"
          by (rule finally_then_leave [OF fin]) (use k3 d0 in simp_all)
        then show ?thesis using Some r Return by (simp add: step1 arb)
      next
        case (LongJmp c' s3)
        have "nextContext s < nextContext ?tC" using tC by simp
        from keepsFramesD_LongJmp [OF kcl _ this, of c' s3] r LongJmp tC
        have k3: "nextContext s3 = nextContext s + 1" "caught s3 (nextContext s) = 1" "1 \<le> c'"
          by simp_all
        let ?t1 = "s3\<lparr>sxLastJumpCode := c',
                      caught := (caught s3)(nextContext s := 1 + int (matching c' cs))\<rparr>"
        have re: "sxRegion body cs (Some fb) f l c' s3 =
          (case finallyClause (Some fb) ?t1 of
             None \<Rightarrow> None
           | Some (ProcExit e s3) \<Rightarrow> Some (ProcExit e s3)
           | Some (LongJmp c' s3) \<Rightarrow> sxRegion body cs (Some fb) f l c' s3
           | Some (Return u s3) \<Rightarrow> Some (sxLeaveTry f l s3))"
          by (subst sxRegion_reentry) (use k3 d0 in simp_all)
        have "matching c' cs < 48 \<Longrightarrow>
          (case finallyClause (Some fb) ?t1 of
             None \<Rightarrow> None
           | Some (ProcExit e s3) \<Rightarrow> Some (ProcExit e s3)
           | Some (LongJmp c' s3) \<Rightarrow> sxRegion body cs (Some fb) f l c' s3
           | Some (Return u s3) \<Rightarrow> Some (sxLeaveTry f l s3)) = finallyOnce fb cs f l ?t1"
          by (rule finally_then_leave [OF fin]) (use k3 d0 in simp_all)
        then show ?thesis using Some r LongJmp by (simp add: step1 arb re)
      qed
    qed
  qed
next
  fix t :: "'u sx_state"
  assume "0 < nextContext t" "1 \<le> sxLastJumpCode t"
  then show "case sxLeaveTry f l t of
               Return u t' \<Rightarrow> False
             | LongJmp c t' \<Rightarrow>
                 c = sxLastJumpCode t \<and> nextContext t' = nextContext t - 1 \<and> 1 < nextContext t
             | ProcExit e t' \<Rightarrow> nextContext t = 1"
    by (rule sxLeaveTry_pending)
qed

text \<open>Two runs from the initial state: the catch body throws and finally still runs
  once (the process then ends with the uncaught code 2); the body ends normally and
  finally runs once.\<close>

lemma region_finally_once_example:
  "observe (sxTry (throw (codeex 1)) [Catch 1 (throw (codeex 2)), Catch 2 skip]
              (Some (mark ''f'')) ''main.c'' 9 (sxInitial ''tag'' [])) = Exited 202 ''f'' \<and>
   observe (sxTry (mark ''t'') [CatchAll skip]
              (Some (mark ''f'')) ''main.c'' 9 (sxInitial ''tag'' [])) = Returned ''tf''"
proof -
  have cls: "\<forall>cl \<in> set [Catch 1 (throw (codeex 2)), Catch 2 (skip :: string block)].
      keepsFrames (clauseBody cl)"
    by (simp add: keepsFrames_throw keepsFrames_skip)
  have cls2: "\<forall>cl \<in> set [CatchAll (skip :: string block)]. keepsFrames (clauseBody cl)"
    by (simp add: keepsFrames_skip)
  have d: "0 \<le> nextContext (sxInitial ''tag'' ([] :: string))"
    "nextContext (sxInitial ''tag'' ([] :: string)) < MAX_TRY_CATCH"
    by (simp_all add: sxInitial_def MAX_TRY_CATCH_def)
  note T1 = region_finally_once [where body = "throw (codeex 1)" and fb = "mark ''f''"
      and f = "''main.c''" and l = 9, OF keepsFrames_throw cls keepsFrames_mark d,
      THEN conjunct2, THEN conjunct1]
  note T2 = region_finally_once [where body = "mark ''t''" and fb = "mark ''f''"
      and f = "''main.c''" and l = 9, OF keepsFrames_mark cls2 keepsFrames_mark d,
      THEN conjunct1]
  show ?thesis
    using T1 T2
    by (simp add: engine_defs matching_def finallyOnce_def)
qed

section \<open>The claims about the exception engine\<close>

text \<open>
  C1. In a frame to which a throw has delivered the pending code \<open>c\<close> and that no catch
  has claimed yet (counter 0), the catch chain runs exactly the body of the first clause,
  in source order, whose declared code equals \<open>c\<close> or that is a catch-all, and it runs
  it from the state in which the frame's counter is 1 and the pending code is 0; with no
  such clause it runs nothing and the pending code stays. Whenever the chain is evaluated
  again in a frame whose counter is 1 or more (the claiming body or the finally body threw
  and control came back to the frame), no clause body runs, whatever the clauses declare:
  the only effect is on the counter.
\<close>

theorem catch_arbitration:
  assumes "0 < nextContext (t :: 'u sx_state)" and "caught t (nextContext t - 1) = 0"
    and "sxLastJumpCode t = c"
  shows "catchChain cs t =
           (case find (selects c) cs of
              None \<Rightarrow> Some (Return () t)
            | Some cl \<Rightarrow> clauseBody cl (claimedBy t)) \<and>
         caught (claimedBy t) (nextContext t - 1) = 1 \<and>
         sxLastJumpCode (claimedBy t) = 0 \<and>
         (\<forall>t' :: 'u sx_state. 0 < nextContext t' \<longrightarrow> 1 \<le> caught t' (nextContext t' - 1) \<longrightarrow>
            catchChain cs t' =
              Some (Return () (t'\<lparr>caught := (caught t')(nextContext t' - 1 :=
                 caught t' (nextContext t' - 1) + int (matching (sxLastJumpCode t') cs))\<rparr>)))"
  using assms catchChain_fresh [of t cs] catchChain_claimed [of _ cs]
  by (simp add: claimedBy_def)

text \<open>At pending code 7, of the clauses \<open>catch(2)\<close>, \<open>catch(7)\<close>, \<open>catchall\<close>,
  \<open>catch(7)\<close> only the second runs.\<close>

theorem catch_arbitration_witness:
  "catchChain [Catch 2 (mark ''a''), Catch 7 (mark ''b''), CatchAll (mark ''c''), Catch 7 (mark ''d'')]
      ((sxInitial ''tag'' [])\<lparr>nextContext := 1, sxLastJumpCode := 7\<rparr>) =
   Some (Return () ((sxInitial ''tag'' [])\<lparr>nextContext := 1, sxLastJumpCode := 0,
          caught := (\<lambda>i. 0)(0 := 1), user := ''b''\<rparr>))"
  using catch_arbitration [of "(sxInitial ''tag'' [])\<lparr>nextContext := 1, sxLastJumpCode := 7\<rparr>" 7
      "[Catch 2 (mark ''a''), Catch 7 (mark ''b''), CatchAll (mark ''c''), Catch 7 (mark ''d'')]"]
  by (simp add: sxInitial_def claimedBy_def mark_def)

text \<open>
  C2. The claim says that the finally body of a region runs exactly once in every case,
  also when a catch body itself throws; saneex.h says the same (\<open>finally\<close>: "optional,
  ran always, just once") and allows clauses that repeat a code (they are "ignored"). The
  counter that grants the finally body is the one every visited catch clause raises:
  \<open>_sxSetCaught(1)\<close> grants only while the raised counter is below
  \<open>FINALLY_THRESHOLD\<close>, 50. Below, the body throws code 1, \<open>catch(1)\<close> claims it and
  throws code 2, and the region has 48 clauses \<open>catch(2)\<close>: back in the frame the visits
  raise the counter from 1 to 49, \<open>_sxSetCaught(1)\<close> counts 50 and refuses, and the region
  is left (the process ends with status 202) without the finally body having run. With 47
  such clauses it runs.
\<close>

theorem finally_skipped_after_48_catch_visits:
  "observe (sxTry (throw (codeex 1)) (Catch 1 (throw (codeex 2)) # replicate 48 (Catch 2 skip))
              (Some (mark ''f'')) ''main.c'' 9 (sxInitial ''tag'' [])) = Exited 202 [] \<and>
   observe (sxTry (throw (codeex 1)) (Catch 1 (throw (codeex 2)) # replicate 47 (Catch 2 skip))
              (Some (mark ''f'')) ''main.c'' 9 (sxInitial ''tag'' [])) = Exited 202 ''f''"
  by code_simp

text \<open>
  C3. The claim says that a rethrow with no code of its own carries on the code \<open>C\<close> of
  the claimed exception. The code does not: the claiming catch has cleared
  \<open>_sxLastJumpCode\<close>, \<open>sxRethrow\<close> copies that zero into the entry, and \<open>_throw\<close>
  delivers the jump value 1. Below, code 5 is thrown and claimed by \<open>catch(5)\<close>, whose
  body rethrows an entry of code 0; the enclosing region's \<open>catch(5)\<close> is passed over and
  its catch-all runs; the trace holds the codes 5, 0 and 1.
\<close>

theorem rethrow_without_code_loses_code:
  "observe (sxTry
              (sxTry (throw (codeex 5)) [Catch 5 (rethrow (codeex 0))] None ''main.c'' 5)
              [Catch 5 (mark ''five''), CatchAll (mark ''other'')] None ''main.c'' 9
              (sxInitial ''tag'' [])) = Returned ''other'' \<and>
   map_option (map code \<circ> trace)
     (endState (sxTry
              (sxTry (throw (codeex 5)) [Catch 5 (rethrow (codeex 0))] None ''main.c'' 5)
              [Catch 5 (mark ''five''), CatchAll (mark ''other'')] None ''main.c'' 9
              (sxInitial ''tag'' []))) = Some [5, 0, 1]"
  by code_simp

text \<open>The same for every state inside a claimed catch: a rethrow of an entry with a
  code below 1 jumps with value 1.\<close>

lemma sxRethrow_without_code:
  assumes "0 < nextContext s" and "sxLastJumpCode s = 0"
    and "caught s (nextContext s - 1) < FINALLY_THRESHOLD" and "code e < 1"
  shows "\<exists>s'. (sxRethrow e s :: ('a, 'u) result) = LongJmp 1 s'"
  using assms by (simp add: sxRethrow_def throw'_def sxAddTraceEntry_def Let_def)

text \<open>
  C4. The claim says that a rethrow outside a catch that has claimed the exception ends
  the process with status 252. The assertion of \<open>sxRethrow\<close> tests only that a frame is
  open, that no code is pending and that the counter is below the threshold; all three
  hold in the body of a region, where nothing has been thrown. Below, a rethrow in a
  region's body is delivered to the region's catch-all like a throw, and the program
  goes on.
\<close>

theorem rethrow_in_try_body_is_catchable:
  "observe (sxTry (rethrow (codeex 7)) [CatchAll (mark ''c'')] None ''main.c'' 9
              (sxInitial ''tag'' [])) = Returned ''c''"
  by code_simp

text \<open>Where the assertion does hold the line: no open frame, a pending code, or the
  finally sentinel.\<close>

lemma sxRethrow_refused:
  assumes "nextContext s \<le> 0 \<or> sxLastJumpCode s \<noteq> 0 \<or>
           FINALLY_THRESHOLD \<le> caught s (nextContext s - 1)"
  shows "\<exists>s'. (sxRethrow e s :: ('a, 'u) result) = ProcExit EXIT_OUTSIDE_RETHROW s'"
  using assms by (auto simp: sxRethrow_def sxAssertFailed_def)

text \<open>
  C5. The claim says that the exit status of an uncaught exception is between 201 and
  254 because codes below 1 count as 1. \<open>_throw\<close> raises only the jump value to 1; the
  exit status is computed from the entry's code as it is. Thrown with no open frame, an
  entry of code 0 (what \<open>newex()\<close> builds while \<open>errno\<close> is 0) ends the process with
  status 200.
\<close>

theorem uncaught_code_zero_exits_200:
  "observe (throw (codeex 0) (sxInitial ''tag'' ())) = Exited 200 ()"
  by code_simp

text \<open>In general the status is \<open>200 + code\<close>, in \<open>int\<close> arithmetic, capped at 254, with
  no lower bound; for the codes from \<open>-2147483648\<close> to \<open>2147483447\<close> the sum is exact.\<close>

lemma throw'_uncaught_status:
  assumes "nextContext s < 1"
  shows "\<exists>s'. (throw' e s :: ('a, 'u) result) =
           ProcExit (if cint (200 + code e) > 254 then 254 else cint (200 + code e)) s'"
  using assms by (simp add: throw'_def sxAddTraceEntry_def Let_def EXIT_UNCAUGHT_def)

lemma throw'_uncaught_status_exact:
  assumes "nextContext s < 1" and "- 2147483648 \<le> code e" and "code e \<le> 2147483447"
  shows "\<exists>s'. (throw' e s :: ('a, 'u) result) =
           ProcExit (if 200 + code e > 254 then 254 else 200 + code e) s'"
  using assms by (simp add: throw'_def sxAddTraceEntry_def Let_def EXIT_UNCAUGHT_def)

text \<open>
  C6. The claim says that once a catch clause has claimed an exception and the region has
  been left normally, the trace is empty and the \<open>extra\<close> payload of every entry has been
  freed. \<open>_sxLeaveTry\<close> does not touch the trace: \<open>clearTrace\<close> is called by \<open>sxThrow\<close>
  alone, so the entries and their payloads stay until the next new throw. Below, an entry
  of code 3 with a payload at address 77 is thrown and claimed by a catch-all that ends at
  once: after the region the trace still has its entry, nothing has been freed, and
  \<open>curex()\<close> hands out that entry (code 3), where saneex.h says that it gives code
  \<open>-1\<close> when not executing inside a catch or finally.
\<close>

theorem trace_kept_after_completed_catch:
  "observe (sxTry (throw ((codeex 3)\<lparr>extra := 77\<rparr>)) [CatchAll skip] None ''main.c'' 9
              (sxInitial ''tag'' ())) = Returned () \<and>
   map_option (length \<circ> trace)
     (endState (sxTry (throw ((codeex 3)\<lparr>extra := 77\<rparr>)) [CatchAll skip] None ''main.c'' 9
                  (sxInitial ''tag'' ()))) = Some 1 \<and>
   map_option freed
     (endState (sxTry (throw ((codeex 3)\<lparr>extra := 77\<rparr>)) [CatchAll skip] None ''main.c'' 9
                  (sxInitial ''tag'' ()))) = Some [] \<and>
   map_option (code \<circ> sxCurrentException)
     (endState (sxTry (throw ((codeex 3)\<lparr>extra := 77\<rparr>)) [CatchAll skip] None ''main.c'' 9
                  (sxInitial ''tag'' ()))) = Some 3"
  by code_simp

text \<open>The same for every region without a finally clause: when the claiming catch body
  ends with no code pending and the uncatchable flag clear, the region returns with the
  trace and the freed payloads as the catch body left them.\<close>

lemma completed_catch_keeps_trace:
  assumes body: "keepsFrames body" and cl: "keepsFrames (clauseBody cl)"
    and d0: "0 \<le> nextContext (s :: 'u sx_state)" and d1: "nextContext s < MAX_TRY_CATCH"
    and thrown: "body (regionEntry s) = Some (LongJmp c s2)"
    and claimed: "find (selects c) cs = Some cl"
    and completes: "clauseBody cl (claimedBy (s2\<lparr>sxLastJumpCode := c\<rparr>)) = Some (Return u s3)"
    and resolved: "sxLastJumpCode s3 = 0" "\<not> hasUncatchable s3"
  shows "\<exists>s'. sxTry body cs None f l s = Some (Return () s') \<and>
              trace s' = trace s3 \<and> freed s' = freed s3 \<and> hasUncatchable s' = hasUncatchable s3"
proof -
  have "nextContext s < nextContext (regionEntry s)" by simp
  from keepsFramesD_LongJmp [OF body thrown this]
  have k: "nextContext s2 = nextContext s + 1" "caught s2 (nextContext s) = 0" "1 \<le> c" by simp_all
  let ?tC = "claimedBy (s2\<lparr>sxLastJumpCode := c\<rparr>)"
  have tC: "nextContext ?tC = nextContext s + 1"
    using k by simp
  then have "nextContext s < nextContext ?tC" by simp
  from keepsFramesD_Return [OF cl completes this] tC
  have k3: "nextContext s3 = nextContext s + 1" by simp
  have "sxTry body cs None f l s = sxRegion body cs None f l c s2"
    by (simp add: sxTry_unfold [OF d1] thrown)
  also have "\<dots> = Some (sxLeaveTry f l s3)"
    by (subst sxRegion_arbitrate) (use k d0 claimed completes in simp_all)
  also have "sxLeaveTry f l s3 = Return () (s3\<lparr>nextContext := nextContext s\<rparr>)"
    using k3 d0 resolved by (simp add: sxLeaveTry_def Let_def)
  finally show ?thesis
    by simp
qed

text \<open>Where the trace is cleared: \<open>sxThrow\<close> runs \<open>clearTrace\<close> first, which empties the
  trace and frees the non-null payloads, last entry first.\<close>

lemma sxThrow_clears_trace:
  "(sxThrow e t :: ('a, 'u) result) = throw' e (clearTrace t)"
  "trace (clearTrace t) = []"
  "\<not> hasUncatchable (clearTrace t)"
  "freed (clearTrace t) = freed t @ filter (\<lambda>p. p \<noteq> NULL) (map extra (rev (trace t)))"
  by (simp_all add: sxThrow_def clearTrace_def)

text \<open>
  C10. Every jump value the engine produces (\<open>_throw\<close>, and through it \<open>sxThrow\<close>,
  \<open>sxRethrow\<close> and \<open>_sxLeaveTry\<close>) is 1 or more; \<open>_sxEnterTry2\<close> stores it as the
  pending code and sends control to the catch chain; and at a pending code of 1 or more a
  clause \<open>catch(n)\<close> with \<open>n \<le> 0\<close> is inert wherever it stands: the chain behaves as if
  the clause were not there, so its body never runs.
\<close>

theorem nonpositive_catch_never_claims:
  assumes "n \<le> 0"
  shows "(\<forall>e (s :: 'u sx_state) c s'. (throw' e s :: (unit, 'u) result) = LongJmp c s' \<longrightarrow> 1 \<le> c) \<and>
         (\<forall>e (s :: 'u sx_state) c s'. (sxThrow e s :: (unit, 'u) result) = LongJmp c s' \<longrightarrow> 1 \<le> c) \<and>
         (\<forall>e (s :: 'u sx_state) c s'. (sxRethrow e s :: (unit, 'u) result) = LongJmp c s' \<longrightarrow> 1 \<le> c) \<and>
         (\<forall>f l (s :: 'u sx_state) c s'. sxLeaveTry f l s = LongJmp c s' \<longrightarrow> 1 \<le> c) \<and>
         (\<forall>c (s :: 'u sx_state) isTry t. 1 \<le> c \<longrightarrow> sxEnterTry2 c s = Return isTry t \<longrightarrow>
            \<not> isTry \<and> sxLastJumpCode t = c) \<and>
         (\<forall>t :: 'u sx_state. 1 \<le> sxLastJumpCode t \<longrightarrow>
            catchChain (cs1 @ Catch n b # cs2) t = catchChain (cs1 @ cs2) t)"
proof (intro conjI allI impI)
  fix e and s s' :: "'u sx_state" and c
  assume "(throw' e s :: (unit, 'u) result) = LongJmp c s'"
  then show "1 \<le> c" by (auto dest: throw'_frames)
next
  fix e and s s' :: "'u sx_state" and c
  assume "(sxThrow e s :: (unit, 'u) result) = LongJmp c s'"
  then show "1 \<le> c" by (auto simp: sxThrow_def dest: throw'_frames)
next
  fix e and s s' :: "'u sx_state" and c
  assume "(sxRethrow e s :: (unit, 'u) result) = LongJmp c s'"
  then show "1 \<le> c"
    by (auto simp: sxRethrow_def sxAssertFailed_def split: if_splits dest: throw'_frames)
next
  fix f l and s s' :: "'u sx_state" and c
  assume "sxLeaveTry f l s = LongJmp c s'"
  then show "1 \<le> c"
    by (auto simp: sxLeaveTry_def sxAssertFailed_def Let_def split: if_splits dest: throw'_frames)
next
  fix c and s t :: "'u sx_state" and isTry
  assume "1 \<le> c" "sxEnterTry2 c s = Return isTry t"
  then show "\<not> isTry" "sxLastJumpCode t = c"
    by (auto simp: sxEnterTry2_def sxAssertFailed_def split: if_splits)
next
  fix t :: "'u sx_state"
  assume "1 \<le> sxLastJumpCode t"
  then show "catchChain (cs1 @ Catch n b # cs2) t = catchChain (cs1 @ cs2) t"
    using assms by (rule catchChain_skip_nonpositive)
qed

text \<open>At pending code 1, a \<open>catch(0)\<close> between \<open>catch(3)\<close> and \<open>catchall\<close> is passed
  over and the catch-all runs.\<close>

theorem nonpositive_catch_never_claims_witness:
  "catchChain ([Catch 3 (mark ''a'')] @ Catch 0 (mark ''zero'') # [CatchAll (mark ''all'')])
      ((sxInitial ''tag'' [])\<lparr>nextContext := 1, sxLastJumpCode := 1\<rparr>) =
   Some (Return () ((sxInitial ''tag'' [])\<lparr>nextContext := 1, sxLastJumpCode := 0,
          caught := (\<lambda>i. 0)(0 := 1), user := ''all''\<rparr>))"
proof -
  have "(0::int) \<le> 0" by simp
  from nonpositive_catch_never_claims [OF this, where ?'u = string and b = "mark ''zero''"
      and ?cs1.0 = "[Catch 3 (mark ''a'')]" and ?cs2.0 = "[CatchAll (mark ''all'')]"]
  have "catchChain ([Catch 3 (mark ''a'')] @ Catch 0 (mark ''zero'') # [CatchAll (mark ''all'')])
      ((sxInitial ''tag'' [])\<lparr>nextContext := 1, sxLastJumpCode := 1\<rparr>) =
    catchChain ([Catch 3 (mark ''a'')] @ [CatchAll (mark ''all'')])
      ((sxInitial ''tag'' [])\<lparr>nextContext := 1, sxLastJumpCode := 1\<rparr>)"
    by simp
  then show ?thesis
    by (simp add: sxInitial_def sxSetCaught_def mark_def Let_def)
qed

section \<open>Properties of saneobj\<close>

subsection \<open>Construction\<close>

lemma sameFramesD:
  "sameFrames s s' \<Longrightarrow> i < nextContext s \<Longrightarrow> nextContext s' = nextContext s \<and> caught s' i = caught s i"
  by (simp add: sameFrames_def)

lemma sxLeaveTry_propagates:
  assumes "0 < nextContext t" and "sxLastJumpCode t = 1"
  shows "\<exists>s'. sxLeaveTry f l t =
              (if 1 < nextContext t then LongJmp 1 s' else ProcExit 201 s') \<and>
            freed s' = freed t \<and> mem s' = mem t \<and> user s' = user t \<and>
            nextContext s' = nextContext t - 1"
  using assms
  by (simp add: sxLeaveTry_def throw'_def Let_def sxAddTraceEntry_def sxPrintTrace_def
      EXIT_UNCAUGHT_def)

lemma sxLeaveTry_Return:
  "sxLeaveTry f l t = Return u s1 \<Longrightarrow> s1 = t\<lparr>nextContext := nextContext t - 1\<rparr>"
  by (auto simp: sxLeaveTry_def sxAssertFailed_def Let_def throw'_no_return split: if_splits)

lemma vtAutoref_freed: "freed (snd (vtAutoref s)) = freed s"
  by (simp add: vtAutoref_def linkvt_def vtObject_def Let_def)

lemma sxThrow_no_return: "sxThrow e s \<noteq> Return u s'"
  by (simp add: sxThrow_def throw'_no_return)

text \<open>The constructor throws: the catch-all frees the block and rethrows, and the region
  passes the exception on.\<close>

lemma sjNew_ctor_throws:
  assumes alloc: "sjAlloc sz s = (allocated, s0)" and nonnull: "allocated \<noteq> NULL"
    and d0: "0 \<le> nextContext (s0 :: 'u sx_state)" and d1: "nextContext s0 < MAX_TRY_CATCH"
    and thrown: "ctor allocated params (regionEntry s0) = Some (LongJmp c s2)"
    and frames: "sameFrames (regionEntry s0) s2" and c: "1 \<le> c"
  shows "\<exists>s'. sjNew sjAlloc ctor ctorAddr params sz f l o_addr s =
              Some (if 0 < nextContext s0 then LongJmp 1 s' else ProcExit 201 s') \<and>
            freed s' = freed s2 @ [allocated] \<and> mem s' = mem s2 \<and> user s' = user s2 \<and>
            nextContext s' = nextContext s0"
proof -
  let ?body = "\<lambda>t. case ctor allocated params t of
                            None \<Rightarrow> None
                          | Some (Return v t') \<Rightarrow> Some (Return () (t'\<lparr>mem := (mem t')(o_addr := v)\<rparr>))
                          | Some (LongJmp c t') \<Rightarrow> Some (LongJmp c t')
                          | Some (ProcExit c t') \<Rightarrow> Some (ProcExit c t')"
  let ?E = "sxprintf (makeEx f l) (''ctor('' @ showNat ctorAddr @ '') error.'')"
  let ?cl = "CatchAll (\<lambda>t. Some (sxRethrow ?E (sjFree allocated t)))"
  let ?R = "sxTry ?body [?cl] None ''saneobj.c'' 127 s0"
  have "nextContext s0 < nextContext (regionEntry s0)" by simp
  from sameFramesD [OF frames this]
  have k: "nextContext s2 = nextContext s0 + 1" "caught s2 (nextContext s0) = 0" by simp_all
  let ?sC = "claimedBy (s2\<lparr>sxLastJumpCode := c\<rparr>)"
  let ?sF = "sjFree allocated ?sC"
  have sF: "nextContext ?sF = nextContext s0 + 1" "caught ?sF (nextContext s0) = 1"
    "sxLastJumpCode ?sF = 0"
    using k by (simp_all add: sjFree_def claimedBy_def)
  let ?Ez = "?E\<lparr>code := 0\<rparr>"
  let ?sR = "(sxAddTraceEntry ?Ez ?sF)"
  have re: "(sxRethrow ?E ?sF :: (unit, 'u) result) = LongJmp 1 ?sR"
    using sF d0
    by (simp add: sxRethrow_def throw'_def Let_def sxprintf_def makeEx_def FINALLY_THRESHOLD_def
        sxAddTraceEntry_def)
  have sR: "nextContext ?sR = nextContext s0 + 1" "caught ?sR (nextContext s0) = 1"
    using sF by (simp_all add: sxAddTraceEntry_def)
  let ?T = "?sR\<lparr>sxLastJumpCode := 1, caught := (caught ?sR)(nextContext s0 := 2)\<rparr>"
  have 1: "?R = sxRegion ?body [?cl] None ''saneobj.c'' 127 c s2"
    by (simp add: sxTry_unfold [OF d1] thrown)
  have 2: "sxRegion ?body [?cl] None ''saneobj.c'' 127 c s2 =
           sxRegion ?body [?cl] None ''saneobj.c'' 127 1 ?sR"
    by (subst sxRegion_arbitrate) (use k d0 c re in simp_all)
  have 3: "sxRegion ?body [?cl] None ''saneobj.c'' 127 1 ?sR = Some (sxLeaveTry ''saneobj.c'' 127 ?T)"
    by (subst sxRegion_reentry) (use sR d0 in \<open>simp_all add: matching_def\<close>)
  have R: "?R = Some (sxLeaveTry ''saneobj.c'' 127 ?T)"
    by (simp only: 1 2 3)
  have T: "nextContext ?T = nextContext s0 + 1" "sxLastJumpCode ?T = 1"
    "freed ?T = freed s2 @ [allocated]" "mem ?T = mem s2" "user ?T = user s2"
    using sR by (simp_all add: sxAddTraceEntry_def sjFree_def claimedBy_def)
  have leave: "\<exists>s'. sxLeaveTry ''saneobj.c'' 127 ?T =
                 (if 0 < nextContext s0 then LongJmp 1 s' else ProcExit 201 s') \<and>
            freed s' = freed s2 @ [allocated] \<and> mem s' = mem s2 \<and> user s' = user s2 \<and>
            nextContext s' = nextContext s0"
    using sxLeaveTry_propagates [of ?T "''saneobj.c''" 127] d0 unfolding T by simp
  then obtain s' where s': "sxLeaveTry ''saneobj.c'' 127 ?T =
                 (if 0 < nextContext s0 then LongJmp 1 s' else ProcExit 201 s')"
      "freed s' = freed s2 @ [allocated]" "mem s' = mem s2" "user s' = user s2"
      "nextContext s' = nextContext s0"
    by blast
  have "sjNew sjAlloc ctor ctorAddr params sz f l o_addr s =
          Some (if 0 < nextContext s0 then LongJmp 1 s' else ProcExit 201 s')"
  proof (cases "0 < nextContext s0")
    case True
    with R s'(1) have R': "?R = Some (LongJmp 1 s')" by simp
    show ?thesis
      unfolding sjNew_def alloc prod.case R' using nonnull True by simp
  next
    case False
    with R s'(1) have R': "?R = Some (ProcExit 201 s')" by simp
    show ?thesis
      unfolding sjNew_def alloc prod.case R' using nonnull False by simp
  qed
  with s' show ?thesis by blast
qed

text \<open>The constructor returns: what \<open>sjNew\<close> returns and whether it freed the block.\<close>

lemma sjNew_ctor_returns:
  assumes alloc: "sjAlloc sz s = (allocated, s0)" and nonnull: "allocated \<noteq> NULL"
    and d1: "nextContext (s0 :: 'u sx_state) < MAX_TRY_CATCH"
    and returned: "ctor allocated params (regionEntry s0) = Some (Return v s2)"
    and result: "sjNew sjAlloc ctor ctorAddr params sz f l o_addr s = Some (Return r s')"
  shows "r = v \<and> (if r = allocated then freed s' = freed s2
                    else freed s' = freed s2 @ [allocated])"
proof -
  let ?body = "\<lambda>t. case ctor allocated params t of
                            None \<Rightarrow> None
                          | Some (Return v t') \<Rightarrow> Some (Return () (t'\<lparr>mem := (mem t')(o_addr := v)\<rparr>))
                          | Some (LongJmp c t') \<Rightarrow> Some (LongJmp c t')
                          | Some (ProcExit c t') \<Rightarrow> Some (ProcExit c t')"
  let ?Ex = "sxprintf (makeEx f l) (''ctor('' @ showNat ctorAddr @ '') error.'')"
  let ?cl = "CatchAll (\<lambda>t. Some (sxRethrow ?Ex (sjFree allocated t)))"
  let ?R = "sxTry ?body [?cl] None ''saneobj.c'' 127 s0"
  let ?t = "s2\<lparr>mem := (mem s2)(o_addr := v)\<rparr>"
  have R: "?R = Some (sxLeaveTry ''saneobj.c'' 127 ?t)"
    by (simp add: sxTry_unfold [OF d1] returned)
  show ?thesis
  proof (cases "sxLeaveTry ''saneobj.c'' 127 ?t")
    case (LongJmp c' s1)
    with R have R': "?R = Some (LongJmp c' s1)" by simp
    from result show ?thesis
      unfolding sjNew_def alloc prod.case R' using nonnull by simp
  next
    case (ProcExit c' s1)
    with R have R': "?R = Some (ProcExit c' s1)" by simp
    from result show ?thesis
      unfolding sjNew_def alloc prod.case R' using nonnull by simp
  next
    case (Return u s1)
    with R have R': "?R = Some (Return u s1)" by simp
    from sxLeaveTry_Return [OF Return]
    have s1: "mem s1 o_addr = v" "freed s1 = freed s2" by simp_all
    show ?thesis
    proof (cases "v = allocated")
      case True
      from result show ?thesis
        unfolding sjNew_def alloc prod.case R' using nonnull True s1 by (auto simp: Let_def)
    next
      case False
      obtain ar s3 where ar: "vtAutoref (sjFree allocated s1) = (ar, s3)"
        by (cases "vtAutoref (sjFree allocated s1)")
      have s3: "freed s3 = freed s2 @ [allocated]"
        using vtAutoref_freed [of "sjFree allocated s1"] ar s1 by (simp add: sjFree_def)
      from result show ?thesis
        unfolding sjNew_def alloc prod.case R' using nonnull False s1 s3 ar
        by (auto simp: Let_def sxThrow_no_return split: if_splits option.splits)
    qed
  qed
qed

subsection \<open>Walks along the parents\<close>

lemma countParentsLoop_reaches:
  "reachesRoot M n v \<Longrightarrow> countParentsLoop M v r = Some (r + 1 + int n)"
proof (induction n arbitrary: v r)
  case 0
  then show ?case by (subst countParentsLoop.simps) simp
next
  case (Suc n)
  then show ?case by (subst countParentsLoop.simps) (simp add: Let_def)
qed

lemma hasClassLoop_reaches:
  "reachesRoot M n v \<Longrightarrow>
   hasClassLoop M v target = Some (if target \<in> set (chainOf M n v) then 1 else 0)"
proof (induction n arbitrary: v)
  case 0
  then show ?case by (subst hasClassLoop.simps) auto
next
  case (Suc n)
  then show ?case by (subst hasClassLoop.simps) (auto simp: Let_def)
qed

lemma reachesRoot_unique:
  "reachesRoot M n v \<Longrightarrow> reachesRoot M m v \<Longrightarrow> n = m"
proof (induction n arbitrary: v m)
  case 0
  then show ?case by (cases m) auto
next
  case (Suc n)
  then show ?case by (cases m) auto
qed

lemma chainOf_depth:
  "reachesRoot M n v \<Longrightarrow> x \<in> set (chainOf M n v) \<Longrightarrow> \<exists>k \<le> n. reachesRoot M k x"
proof (induction n arbitrary: v)
  case 0
  then show ?case by auto
next
  case (Suc n)
  show ?case
  proof (cases "x = v")
    case True
    then show ?thesis using Suc.prems(1) by blast
  next
    case False
    with Suc.prems have "x \<in> set (chainOf M n (M (v + off_parent)))" by simp
    moreover from Suc.prems have "reachesRoot M n (M (v + off_parent))" by simp
    ultimately obtain k where "k \<le> n" "reachesRoot M k x" using Suc.IH by blast
    then show ?thesis using le_SucI by blast
  qed
qed

lemma chainOf_distinct: "reachesRoot M n v \<Longrightarrow> distinct (chainOf M n v)"
proof (induction n arbitrary: v)
  case 0
  then show ?case by simp
next
  case (Suc n)
  have tail: "reachesRoot M n (M (v + off_parent))" using Suc.prems by simp
  have "v \<notin> set (chainOf M n (M (v + off_parent)))"
  proof
    assume "v \<in> set (chainOf M n (M (v + off_parent)))"
    from chainOf_depth [OF tail this] obtain k where "k \<le> n" "reachesRoot M k v" by blast
    with reachesRoot_unique [OF Suc.prems, of k] show False by simp
  qed
  then show ?case using Suc.IH [OF tail] by simp
qed

lemma chainOf_nonnull: "reachesRoot M n v \<Longrightarrow> NULL \<notin> set (chainOf M n v)"
  by (induction n arbitrary: v) auto

lemma chainOf_nonempty: "chainOf M n v \<noteq> []"
  by (cases n) simp_all

lemma chainOf_last: "reachesRoot M n v \<Longrightarrow> M (last (chainOf M n v) + off_parent) = NULL"
  by (induction n arbitrary: v) (auto simp: chainOf_nonempty)

lemma reachesRoot_cong:
  "reachesRoot M n v \<Longrightarrow> \<forall>a \<in> set (chainOf M n v). M' (a + off_parent) = M (a + off_parent) \<Longrightarrow>
   reachesRoot M' n v"
  by (induction n arbitrary: v) auto

text \<open>The listing and the resolution walk on a chain that reaches a null parent.\<close>

lemma classListLoop_reaches:
  "reachesRoot M n v \<Longrightarrow>
   classListLoop M maxList v i list =
     (list @ map (\<lambda>a. M (a + off_className)) (take (nat (maxList - i)) (chainOf M n v)),
      i + min (int (Suc n)) (max 0 (maxList - i)))"
proof (induction n arbitrary: v i list)
  case 0
  show ?case
  proof (cases "i < maxList")
    case True
    then have "nat (maxList - i) = Suc (nat (maxList - i - 1))" by simp
    then show ?thesis using 0 True
      by (simp add: classListLoop.simps [of M maxList v] classListLoop.simps [of M maxList NULL])
  next
    case False
    then show ?thesis by (simp add: classListLoop.simps [of M maxList v])
  qed
next
  case (Suc n)
  show ?case
  proof (cases "i < maxList")
    case True
    then have n: "nat (maxList - i) = Suc (nat (maxList - (i + 1)))" by simp
    from Suc.prems have tail: "reachesRoot M n (M (v + off_parent))" and v: "v \<noteq> NULL" by simp_all
    have step: "classListLoop M maxList v i list =
        classListLoop M maxList (M (v + off_parent)) (i + 1) (list @ [M (v + off_className)])"
      using True v by (subst classListLoop.simps) simp
    have ar: "i + 1 + min (int (Suc n)) (max 0 (maxList - (i + 1))) =
        i + min (int (Suc (Suc n))) (max 0 (maxList - i))"
      using True by (simp add: min_def max_def)
    show ?thesis
      unfolding step Suc.IH [OF tail] ar n by simp
  next
    case False
    then show ?thesis by (simp add: classListLoop.simps [of M maxList v])
  qed
qed

lemma inheritedLoop_reaches:
  "reachesRoot M n v \<Longrightarrow>
   \<exists>w. inheritedLoop M off mb v found = Some w \<and>
       (\<forall>r. w = Found r \<longrightarrow> vt r \<in> set (chainOf M n v))"
proof (induction n arbitrary: v found)
  case 0
  then show ?case by (subst inheritedLoop.simps) (simp add: Let_def)
next
  case (Suc n)
  from Suc.prems have tail: "reachesRoot M n (M (v + off_parent))" by simp
  from Suc.IH [OF tail]
  obtain w where w: "inheritedLoop M off mb (M (v + off_parent)) (found \<or> M (v + off) = mb) = Some w"
     "\<forall>r. w = Found r \<longrightarrow> vt r \<in> set (chainOf M n (M (v + off_parent)))"
    by blast
  show ?case
    by (subst inheritedLoop.simps) (use w in \<open>auto simp: Let_def\<close>)
qed

lemma sjInheritedMethod_reaches:
  assumes "reachesRoot (mem s) n v"
  shows "\<exists>r. sjInheritedMethod v vtMethod mb s = Some r \<and>
           (\<forall>x s'. r = Return x s' \<longrightarrow>
              s' = s \<and> (vt x = NULL \<or> vt x \<in> set (chainOf (mem s) n v)))"
proof -
  from inheritedLoop_reaches [OF assms, of "vtMethod - v" mb False]
  obtain w where w: "inheritedLoop (mem s) (vtMethod - v) mb v False = Some w"
    "\<forall>r. w = Found r \<longrightarrow> vt r \<in> set (chainOf (mem s) n v)" by blast
  show ?thesis
    unfolding sjInheritedMethod_def Let_def
    using w by (cases w) (auto simp: sxThrow_no_return split: bool.splits)
qed

text \<open>A descriptor that is its own parent makes the walk endless.\<close>

lemma self_parent_diverges_aux:
  assumes "countParentsLoop M v r = Some y"
  shows "\<not> (M (v + off_parent) = v \<and> v \<noteq> NULL)"
  by (rule countParentsLoop.raw_induct
        [where P = "\<lambda>M v r y. \<not> (M (v + off_parent) = v \<and> v \<noteq> NULL)", OF _ assms])
     (auto simp: Let_def split: if_splits)

lemma self_parent_diverges:
  "M (v + off_parent) = v \<Longrightarrow> v \<noteq> NULL \<Longrightarrow> sjCountParents M v = None"
  using self_parent_diverges_aux [of M v "-1"]
  by (cases "sjCountParents M v") (auto simp: sjCountParents_def)

text \<open>\<open>linkvt\<close> puts a new descriptor in front of its parent's chain.\<close>

lemma foldl_slots_other:
  "\<forall>(off, val) \<in> set body. x \<noteq> v + off \<Longrightarrow>
   foldl (\<lambda>M (off, val). M(v + off := val)) M body x = M x"
  by (induction body arbitrary: M) auto

lemma linkvt_extends_chain:
  assumes fresh: "mem s (v + off_parent) = NULL" and v: "v \<noteq> NULL"
    and par: "vtParent s = (p, s1)" and chain: "reachesRoot (mem s1) n p"
    and apart: "\<forall>a \<in> set (chainOf (mem s1) n p). a < v \<or> v + sizeofVt \<le> a"
    and sizes: "sizeofParentVt \<le> sizeofVt" "off_new < sizeofVt"
    and body: "\<forall>(off, val) \<in> set body. 0 < off \<and> off < sizeofVt"
  shows "reachesRoot
           (mem (snd (linkvt v vtParent sizeofParentVt sizeofVt sizeofClass name ctor body s)))
           (Suc n) v"
proof -
  let ?M1 = "(mem s1)(v + off_parent := p)"
  let ?M2 = "\<lambda>a. if v + off_size \<le> a \<and> a < v + sizeofParentVt then ?M1 (p + (a - v)) else ?M1 a"
  let ?M3 = "?M2(v + off_size := sizeofVt, v + off_objectSize := sizeofClass,
                          v + off_className := name, v + off_new := ctor)"
  let ?M4 = "foldl (\<lambda>M (off, val). M(v + off := val)) ?M3 body"
  have res: "mem (snd (linkvt v vtParent sizeofParentVt sizeofVt sizeofClass name ctor body s)) = ?M4"
    using fresh par by (simp add: linkvt_def Let_def)
  have own: "?M4 v = p"
  proof -
    have "?M4 v = ?M3 v"
      by (rule foldl_slots_other) (use body in auto)
    then show ?thesis
      by (simp add: off_parent_def off_size_def off_objectSize_def off_className_def off_new_def)
  qed
  have others: "?M4 a = mem s1 a" if "a < v \<or> v + sizeofVt \<le> a" for a
  proof -
    have "?M4 a = ?M3 a"
      by (rule foldl_slots_other) (use body that in auto)
    then show ?thesis
      using that sizes
      by (auto simp: off_parent_def off_size_def off_objectSize_def off_className_def off_new_def)
  qed
  have p: "p \<noteq> NULL" using chain by (cases n) auto
  have "reachesRoot ?M4 n p"
    by (rule reachesRoot_cong [OF chain]) (use apart others in \<open>auto simp: off_parent_def\<close>)
  then show ?thesis
    unfolding res using own p v by (simp add: off_parent_def)
qed

subsection \<open>The example hierarchy\<close>

lemmas obj_defs =
  hierarchy_def vtLeaf_def vtMid_def vtRoot_def vtObject_def vtAutoref_def linkvt_def sjInitial_def
  sxInitial_def off_parent_def off_size_def off_objectSize_def off_className_def off_new_def
  off_del_def off_m_def sizeof_Object_vt_def sizeof_Object_def sizeof_Autoref_vt_def
  sizeof_Autoref_def
  str_Root_def str_Mid_def str_Leaf_def str_Object_def str_Autoref_def
  Root_new_fn_def Mid_new_fn_def Leaf_new_fn_def Leaf_m_fn_def Object_new_fn_def Object_del_fn_def
  Autoref_new_fn_def Autoref_take_fn_def Autoref_release_fn_def
  vtRoot_static_def vtMid_static_def vtLeaf_static_def vtObject_static_def vtAutoref_static_def
  NULL_def ptrSize_def size_t_sub_def

lemmas link_defs =
  off_parent_def off_size_def off_objectSize_def off_className_def off_new_def off_del_def off_m_def
  vtRoot_static_def vtMid_static_def vtLeaf_static_def vtObject_static_def
  Leaf_m_fn_def NULL_def

lemma hierarchy_state:
  "nextContext (hierarchy b) = 1" "user (hierarchy b) = ()" "errno (hierarchy b) = 0"
  by (simp_all add: obj_defs Let_def)

lemma hierarchy_cells:
  "mem (hierarchy b) (vtLeaf_static + off_parent) = vtMid_static"
  "mem (hierarchy b) (vtMid_static + off_parent) = vtRoot_static"
  "mem (hierarchy b) (vtRoot_static + off_parent) = vtObject_static"
  "mem (hierarchy b) (vtObject_static + off_parent) = NULL"
  "mem (hierarchy b) (vtLeaf_static + off_size) = 56"
  "mem (hierarchy b) (vtMid_static + off_size) = 56"
  "mem (hierarchy b) (vtRoot_static + off_size) = 56"
  "mem (hierarchy b) (vtObject_static + off_size) = 48"
  "mem (hierarchy b) (vtLeaf_static + off_m) = (if b then Leaf_m_fn else NULL)"
  "mem (hierarchy b) (vtMid_static + off_m) = NULL"
  "mem (hierarchy b) (vtRoot_static + off_m) = NULL"
  "cstr (hierarchy b) (mem (hierarchy b) (vtLeaf_static + off_className)) = ''Leaf''"
  by (simp_all add: obj_defs Let_def)

lemma observe_sxThrow:
  "0 < nextContext s \<Longrightarrow>
   observe (Some (sxThrow e s :: ('a, 'u) result)) = Jumped (if 0 < code e then code e else 1) (user s)"
  by (simp add: sxThrow_def throw'_def clearTrace_def sxAddTraceEntry_def Let_def)

lemma messages_sxThrow:
  "0 < nextContext s \<Longrightarrow>
   map_option (map message \<circ> trace) (endState (Some (sxThrow e s :: ('a, 'u) result))) =
     Some [take (SX_MAX_TRACE_STRING - 1) (message e)]"
  by (simp add: sxThrow_def throw'_def clearTrace_def sxAddTraceEntry_def Let_def MAX_TRACE_def)

lemma propagate_noreturn:
  "\<forall>u s'. r \<noteq> Return u s' \<Longrightarrow>
   (case r of Return u s' \<Rightarrow> F u s' | LongJmp c s' \<Rightarrow> Some (LongJmp c s')
            | ProcExit c s' \<Rightarrow> Some (ProcExit c s')) = Some r"
  by (cases r) auto

lemma sjInheritedMethod_null_body:
  "sjInheritedMethod v vtMethod NULL s =
     Some (sxThrow (sxprintf (newex ''saneobj.c'' 189 s)
             (''sjInheritedMethod('' @ cstr s (mem s (v + off_className)) @
              ''): vtMethod doesn't belong to vt.'')) s)"
  by (simp add: sjInheritedMethod_def Let_def)

lemma sjBaseMethod_null_slot:
  assumes "mem s vtMethod = NULL"
  shows "sjBaseMethod v vtMethod s =
           Some (sxThrow (sxprintf (newex ''saneobj.c'' 189 s)
             (''sjInheritedMethod('' @ cstr s (mem s (v + off_className)) @
              ''): vtMethod doesn't belong to vt.'')) s)"
  unfolding sjBaseMethod_def Let_def assms
  by (subst baseMethodLoop.simps)
     (simp only: SjInheritedMethod.simps sjInheritedMethod_null_body option.case
        propagate_noreturn [OF allI, OF allI, OF sxThrow_no_return])

lemma baseMethod_null_slot_jumps:
  assumes "mem s vtMethod = NULL" and "0 < nextContext s"
  shows "observe (sjBaseMethod v vtMethod s) = Jumped (if 0 < errno s then errno s else 1) (user s)"
  unfolding sjBaseMethod_null_slot [OF assms(1)]
  by (simp add: observe_sxThrow assms(2) sxprintf_def newex_def exex_def)

section \<open>The claims about saneobj\<close>

text \<open>
  C7, as amended. The parent reference of the root descriptor is null, and every walk
  along the parents relies on a non-null parent at every other node and stops at the null
  one: for a descriptor from which the parents lead in \<open>n\<close> steps to a descriptor with a
  null parent, \<open>sjCountParents\<close> returns \<open>n\<close>; \<open>sjHasClass\<close> returns whether the asked
  descriptor is on the chain; \<open>sjInheritedMethod\<close> ends, and what it returns is no
  descriptor or one of the chain; \<open>sjClassList\<close> stores the class names of the chain's
  first \<open>maxList\<close> descriptors and returns their number. The chain has no repeated and no
  null descriptor and its last descriptor has a null parent. \<open>linkvt\<close> keeps this: a fresh
  descriptor linked to the head of such a chain, lying apart from the chain's descriptors,
  heads a chain one longer.
\<close>

theorem descriptor_chains_end_at_null_parent:
  assumes "reachesRoot M n v"
  shows "sjCountParents M v = Some (int n) \<and>
         (\<forall>obj target. M obj = v \<longrightarrow>
            sjHasClass M obj target = Some (if target \<in> set (chainOf M n v) then 1 else 0)) \<and>
         (\<forall>(s :: 'u sx_state) vtMethod methodBody. mem s = M \<longrightarrow>
            (\<exists>r. sjInheritedMethod v vtMethod methodBody s = Some r \<and>
                 (\<forall>x s'. r = Return x s' \<longrightarrow>
                    s' = s \<and> (vt x = NULL \<or> vt x \<in> set (chainOf M n v))))) \<and>
         (\<forall>maxList. sjClassList M v maxList =
            (map (\<lambda>a. M (a + off_className)) (take (nat maxList) (chainOf M n v)),
             min (int (Suc n)) (max 0 maxList))) \<and>
         distinct (chainOf M n v) \<and> NULL \<notin> set (chainOf M n v) \<and>
         M (last (chainOf M n v) + off_parent) = NULL \<and>
         (\<forall>(s :: 'u sx_state) s1 vtParent w sizeofParentVt sizeofVt sizeofClass name ctor
             (body :: (nat \<times> addr) list).
            M = mem s1 \<longrightarrow> vtParent s = (v, s1) \<longrightarrow>
            mem s (w + off_parent) = NULL \<longrightarrow> w \<noteq> NULL \<longrightarrow>
            (\<forall>a \<in> set (chainOf M n v). a < w \<or> w + sizeofVt \<le> a) \<longrightarrow>
            sizeofParentVt \<le> sizeofVt \<longrightarrow> off_new < sizeofVt \<longrightarrow>
            (\<forall>(off, val) \<in> set body. 0 < off \<and> off < sizeofVt) \<longrightarrow>
            reachesRoot
              (mem (snd (linkvt w vtParent sizeofParentVt sizeofVt sizeofClass name ctor body s)))
              (Suc n) w)"
proof (intro conjI allI impI)
  show "sjCountParents M v = Some (int n)"
    using countParentsLoop_reaches [OF assms, of "-1"] by (simp add: sjCountParents_def)
next
  fix obj target
  assume "M obj = v"
  then show "sjHasClass M obj target = Some (if target \<in> set (chainOf M n v) then 1 else 0)"
    using hasClassLoop_reaches [OF assms] by (simp add: sjHasClass_def)
next
  fix s :: "'u sx_state" and vtMethod methodBody
  assume "mem s = M"
  then show "\<exists>r. sjInheritedMethod v vtMethod methodBody s = Some r \<and>
                 (\<forall>x s'. r = Return x s' \<longrightarrow>
                    s' = s \<and> (vt x = NULL \<or> vt x \<in> set (chainOf M n v)))"
    using sjInheritedMethod_reaches [of s n v vtMethod methodBody] assms by simp
next
  fix maxList
  show "sjClassList M v maxList =
            (map (\<lambda>a. M (a + off_className)) (take (nat maxList) (chainOf M n v)),
             min (int (Suc n)) (max 0 maxList))"
    using classListLoop_reaches [OF assms, of maxList 0 "[]"] by (simp add: sjClassList_def)
next
  show "distinct (chainOf M n v)" by (rule chainOf_distinct [OF assms])
next
  show "NULL \<notin> set (chainOf M n v)" by (rule chainOf_nonnull [OF assms])
next
  show "M (last (chainOf M n v) + off_parent) = NULL" by (rule chainOf_last [OF assms])
next
  fix s s1 :: "'u sx_state" and vtParent w sizeofParentVt sizeofVt sizeofClass name ctor
    and body :: "(nat \<times> addr) list"
  assume "M = mem s1" "vtParent s = (v, s1)" "mem s (w + off_parent) = NULL" "w \<noteq> NULL"
    "\<forall>a \<in> set (chainOf M n v). a < w \<or> w + sizeofVt \<le> a"
    "sizeofParentVt \<le> sizeofVt" "off_new < sizeofVt"
    "\<forall>(off, val) \<in> set body. 0 < off \<and> off < sizeofVt"
  then show "reachesRoot
              (mem (snd (linkvt w vtParent sizeofParentVt sizeofVt sizeofClass name ctor body s)))
              (Suc n) w"
    using assms by (intro linkvt_extends_chain) auto
qed

text \<open>After \<open>vtAutoref()\<close>: the chain of \<open>Autoref\<close> is \<open>Autoref\<close>, \<open>Object\<close>, and
  \<open>Object\<close>'s parent is null; the listing gives the two names, and resolving \<open>take\<close>
  from \<open>Autoref\<close> ends.\<close>

theorem descriptor_chains_end_at_null_parent_witness:
  "sjCountParents (mem (snd (vtAutoref (sjInitial ''tag'' ())))) vtAutoref_static = Some 1 \<and>
   chainOf (mem (snd (vtAutoref (sjInitial ''tag'' ())))) 1 vtAutoref_static =
     [vtAutoref_static, vtObject_static] \<and>
   mem (snd (vtAutoref (sjInitial ''tag'' ()))) (vtObject_static + off_parent) = NULL \<and>
   sjClassList (mem (snd (vtAutoref (sjInitial ''tag'' ())))) vtAutoref_static 64 =
     ([str_Autoref, str_Object], 2) \<and>
   sjInheritedMethod vtAutoref_static (vtAutoref_static + 48) Autoref_take_fn
     (snd (vtAutoref (sjInitial ''tag'' ()))) \<noteq> None"
proof -
  let ?s = "snd (vtAutoref (sjInitial ''tag'' ()))"
  have r: "reachesRoot (mem ?s) 1 vtAutoref_static"
    by (simp add: obj_defs Let_def)
  have c: "chainOf (mem ?s) 1 vtAutoref_static = [vtAutoref_static, vtObject_static]"
    by (simp add: obj_defs Let_def)
  have n: "mem ?s (vtAutoref_static + off_className) = str_Autoref"
    "mem ?s (vtObject_static + off_className) = str_Object"
    by (simp_all add: obj_defs Let_def)
  note T = descriptor_chains_end_at_null_parent [OF r, where ?'u = unit]
  have 1: "sjCountParents (mem ?s) vtAutoref_static = Some 1"
    using T [THEN conjunct1] by simp
  have 2: "mem ?s (vtObject_static + off_parent) = NULL"
    using T [THEN conjunct2, THEN conjunct2, THEN conjunct2, THEN conjunct2, THEN conjunct2,
        THEN conjunct2, THEN conjunct1]
    unfolding c by simp
  have 3: "sjClassList (mem ?s) vtAutoref_static 64 =
      (map (\<lambda>a. mem ?s (a + off_className)) (take (nat 64) [vtAutoref_static, vtObject_static]),
       min (int (Suc 1)) (max 0 64))"
    using T [THEN conjunct2, THEN conjunct2, THEN conjunct2, THEN conjunct1, THEN spec, of 64]
    unfolding c .
  obtain res where "sjInheritedMethod vtAutoref_static (vtAutoref_static + 48) Autoref_take_fn ?s =
      Some res"
    using T [THEN conjunct2, THEN conjunct2, THEN conjunct1, rule_format, OF refl] by blast
  then have 4: "sjInheritedMethod vtAutoref_static (vtAutoref_static + 48) Autoref_take_fn ?s \<noteq> None"
    by simp
  have cl: "sjClassList (mem ?s) vtAutoref_static 64 = ([str_Autoref, str_Object], 2)"
    unfolding 3 by (simp add: n)
  show ?thesis
    by (intro conjI 1 c 2 cl 4)
qed

text \<open>The claim as stated fails: the root's parent is null, not the root; the walk from
  the root ends because of that, and would not end if the root were its own parent.\<close>

theorem root_parent_is_null_counterexample:
  "fst (vtObject (sjInitial ''tag'' ())) = vtObject_static \<and>
   mem (sjInitial ''tag'' ()) (vtObject_static + off_parent) = NULL \<and>
   vtObject_static \<noteq> NULL \<and>
   sjCountParents (mem (sjInitial ''tag'' ())) vtObject_static = Some 0 \<and>
   sjCountParents ((mem (sjInitial ''tag'' ()))(vtObject_static + off_parent := vtObject_static))
     vtObject_static = None"
proof -
  have a: "fst (vtObject (sjInitial ''tag'' ())) = vtObject_static"
    by (simp add: vtObject_def)
  have b: "mem (sjInitial ''tag'' ()) (vtObject_static + off_parent) = NULL"
    by (simp add: obj_defs)
  have c: "vtObject_static \<noteq> NULL"
    by (simp add: obj_defs)
  have d: "sjCountParents (mem (sjInitial ''tag'' ())) vtObject_static = Some 0"
    unfolding sjCountParents_def
    by (subst countParentsLoop.simps) (simp add: obj_defs Let_def)
  have e: "sjCountParents ((mem (sjInitial ''tag'' ()))(vtObject_static + off_parent := vtObject_static))
     vtObject_static = None"
    by (rule self_parent_diverges) (simp_all add: vtObject_static_def NULL_def)
  show ?thesis
    by (intro conjI a b c d e)
qed

text \<open>
  C8. The claim says that \<open>sjBaseMethod\<close> on the slot \<open>m\<close> of \<open>Leaf\<close> reports \<open>Root\<close>,
  where \<open>m\<close> was first declared, whether or not \<open>Leaf\<close> overrides it; saneobj.h says the
  same ("Determines where *vtMethod() was first introduced. May return NULL vt.method if
  it was introduced as abstract"). The code does neither. When only \<open>Leaf\<close> overrides
  \<open>m\<close>, \<open>sjInheritedMethod\<close> stops at the first ancestor whose slot is null, and that is
  \<open>Mid\<close>, whose slot is the copy of \<open>Root\<close>'s: \<open>sjBaseMethod\<close> reports \<open>Mid\<close>. When
  neither overrides \<open>m\<close>, the slot of \<open>Leaf\<close> is null, \<open>sjInheritedMethod\<close> refuses the
  null method body and \<open>sjBaseMethod\<close> throws "vtMethod doesn't belong to vt".
\<close>

theorem baseMethod_misses_first_declaration:
  "sjBaseMethod vtLeaf_static (vtLeaf_static + off_m) (hierarchy True) =
     Some (Return \<lparr>vt = vtMid_static, method' = NULL\<rparr> (hierarchy True)) \<and>
   vtMid_static \<noteq> vtRoot_static \<and>
   mem (hierarchy True) (vtLeaf_static + off_parent) = vtMid_static \<and>
   mem (hierarchy True) (vtMid_static + off_parent) = vtRoot_static \<and>
   mem (hierarchy True) (vtRoot_static + off_m) = NULL \<and>
   mem (hierarchy True) (vtMid_static + off_m) = NULL \<and>
   mem (hierarchy True) (vtLeaf_static + off_m) = Leaf_m_fn \<and>
   mem (hierarchy False) (vtLeaf_static + off_m) = NULL \<and>
   observe (sjBaseMethod vtLeaf_static (vtLeaf_static + off_m) (hierarchy False)) = Jumped 1 () \<and>
   map_option (map message \<circ> trace)
     (endState (sjBaseMethod vtLeaf_static (vtLeaf_static + off_m) (hierarchy False))) =
   Some [''sjInheritedMethod(Leaf): vtMethod doesn't belong to vt.'']"
proof -
  note cells = hierarchy_cells [where b = True, unfolded link_defs, simplified]
  have step2: "inheritedLoop (mem (hierarchy True)) off_m Leaf_m_fn vtMid_static True =
      Some (Found \<lparr>vt = vtMid_static, method' = NULL\<rparr>)"
    by (subst inheritedLoop.simps) (simp add: cells link_defs Let_def)
  have step1: "inheritedLoop (mem (hierarchy True)) off_m Leaf_m_fn vtLeaf_static False =
      inheritedLoop (mem (hierarchy True)) off_m Leaf_m_fn vtMid_static True"
    by (subst inheritedLoop.simps) (simp add: cells link_defs Let_def size_t_sub_def ptrSize_def)
  have inh: "sjInheritedMethod vtLeaf_static (vtLeaf_static + off_m) Leaf_m_fn (hierarchy True) =
      Some (Return \<lparr>vt = vtMid_static, method' = NULL\<rparr> (hierarchy True))"
    unfolding sjInheritedMethod_def Let_def
    using step1 step2
    by (simp add: cells link_defs size_t_sub_def ptrSize_def)
  have 1: "sjBaseMethod vtLeaf_static (vtLeaf_static + off_m) (hierarchy True) =
     Some (Return \<lparr>vt = vtMid_static, method' = NULL\<rparr> (hierarchy True))"
    unfolding sjBaseMethod_def Let_def
    apply (subst baseMethodLoop.simps)
    apply (simp add: hierarchy_cells inh)
    apply (simp add: link_defs)
    done
  have 2: "observe (sjBaseMethod vtLeaf_static (vtLeaf_static + off_m) (hierarchy False)) = Jumped 1 ()"
    by (subst baseMethod_null_slot_jumps) (simp_all add: hierarchy_cells hierarchy_state)
  have slot: "mem (hierarchy False) (vtLeaf_static + off_m) = NULL"
    by (simp add: hierarchy_cells)
  have 3: "map_option (map message \<circ> trace)
     (endState (sjBaseMethod vtLeaf_static (vtLeaf_static + off_m) (hierarchy False))) =
     Some [''sjInheritedMethod(Leaf): vtMethod doesn't belong to vt.'']"
    unfolding sjBaseMethod_null_slot [OF slot] hierarchy_cells
    by (simp add: messages_sxThrow hierarchy_state sxprintf_def newex_def exex_def
        SX_MAX_TRACE_STRING_def)
  have 4: "vtMid_static \<noteq> vtRoot_static"
    by (simp add: link_defs)
  show ?thesis
    unfolding 1 2 3
    by (simp add: hierarchy_cells 4)
qed



text \<open>
  C9. When \<open>sjAlloc\<close> has given a block and the constructor, called in the region of
  \<open>sjNew\<close>, throws (keeping the frames), \<open>sjNew\<close> does not return: it jumps to the
  enclosing frame, or ends the process when there is none; the block has been handed to
  \<open>sjFree\<close> exactly once after the constructor's throw, and nothing else has touched the
  memory or the client's variables (no destructor has run). When the constructor returns
  and \<open>sjNew\<close> returns, the block is either the returned object and not freed by
  \<open>sjNew\<close>, or freed once and not the returned object.
\<close>

theorem construct_frees_once_when_ctor_throws:
  assumes alloc: "sjAlloc sz s = (allocated, s0)" and nonnull: "allocated \<noteq> NULL"
    and d0: "0 \<le> nextContext (s0 :: 'u sx_state)" and d1: "nextContext s0 < MAX_TRY_CATCH"
  shows "(\<forall>c s2. ctor allocated params (regionEntry s0) = Some (LongJmp c s2) \<longrightarrow>
            sameFrames (regionEntry s0) s2 \<longrightarrow> 1 \<le> c \<longrightarrow>
            (\<exists>s'. sjNew sjAlloc ctor ctorAddr params sz f l o_addr s =
                    Some (if 0 < nextContext s0 then LongJmp 1 s' else ProcExit 201 s') \<and>
                  freed s' = freed s2 @ [allocated] \<and> mem s' = mem s2 \<and> user s' = user s2 \<and>
                  nextContext s' = nextContext s0)) \<and>
         (\<forall>v s2 r s'. ctor allocated params (regionEntry s0) = Some (Return v s2) \<longrightarrow>
            sjNew sjAlloc ctor ctorAddr params sz f l o_addr s = Some (Return r s') \<longrightarrow>
            r = v \<and> (if r = allocated then freed s' = freed s2
                      else freed s' = freed s2 @ [allocated]))"
proof (intro conjI allI impI)
  fix c s2
  assume "ctor allocated params (regionEntry s0) = Some (LongJmp c s2)"
    "sameFrames (regionEntry s0) s2" "1 \<le> c"
  then show "\<exists>s'. sjNew sjAlloc ctor ctorAddr params sz f l o_addr s =
                    Some (if 0 < nextContext s0 then LongJmp 1 s' else ProcExit 201 s') \<and>
                  freed s' = freed s2 @ [allocated] \<and> mem s' = mem s2 \<and> user s' = user s2 \<and>
                  nextContext s' = nextContext s0"
    by (rule sjNew_ctor_throws [where sjAlloc = sjAlloc and sz = sz and s = s, OF alloc nonnull d0 d1])
next
  fix v s2 r s'
  assume "ctor allocated params (regionEntry s0) = Some (Return v s2)"
    "sjNew sjAlloc ctor ctorAddr params sz f l o_addr s = Some (Return r s')"
  then show "r = v" "if r = allocated then freed s' = freed s2 else freed s' = freed s2 @ [allocated]"
    using sjNew_ctor_returns [where sjAlloc = sjAlloc and sz = sz and s = s, OF alloc nonnull d1]
    by blast+
qed

text \<open>A constructor that throws code 4, called with no frame open, on a block at 5000:
  the process ends with status 201 and the block has been freed once.\<close>

theorem construct_frees_once_when_ctor_throws_witness:
  "observe (sjNew (\<lambda>n t. (5000, t)) (\<lambda>a p t. Some (sxThrow (codeex 4) t)) 296 NULL 16
              ''main.c'' 3 6000 (sjInitial ''tag'' ())) = Exited 201 () \<and>
   map_option freed
     (endState (sjNew (\<lambda>n t. (5000, t)) (\<lambda>a p t. Some (sxThrow (codeex 4) t)) 296 NULL 16
              ''main.c'' 3 6000 (sjInitial ''tag'' ()))) = Some [5000]"
proof -
  let ?s = "sjInitial ''tag'' ()"
  let ?s2 = "(regionEntry ?s)\<lparr>trace := [codeex 4]\<rparr>"
  have a: "(\<lambda>n t. (5000, t)) 16 ?s = (5000, ?s)" "(5000 :: addr) \<noteq> NULL"
    "0 \<le> nextContext ?s" "nextContext ?s < MAX_TRY_CATCH"
    by (simp_all add: NULL_def sjInitial_def sxInitial_def MAX_TRY_CATCH_def)
  have t: "(\<lambda>a p t. Some (sxThrow (codeex 4) t)) 5000 NULL (regionEntry ?s) = Some (LongJmp 4 ?s2)"
    by (simp add: sjInitial_def engine_defs)
  have f: "sameFrames (regionEntry ?s) ?s2" "(1::int) \<le> 4"
    by (simp_all add: sameFrames_def)
  from construct_frees_once_when_ctor_throws [where sjAlloc = "\<lambda>n t. (5000, t)" and sz = 16
      and s = ?s and ctor = "\<lambda>a p t. Some (sxThrow (codeex 4) t)" and params = NULL
      and ctorAddr = 296 and f = "''main.c''" and l = 3 and o_addr = 6000,
      OF a, THEN conjunct1, rule_format, OF t f]
  obtain s' where "sjNew (\<lambda>n t. (5000, t)) (\<lambda>a p t. Some (sxThrow (codeex 4) t)) 296 NULL 16
              ''main.c'' 3 6000 ?s = Some (ProcExit 201 s')"
     "freed s' = [5000]" "user s' = ()"
    by (auto simp: sjInitial_def sxInitial_def regionEntry_def)
  then show ?thesis by simp
qed

end
